theory Spec2Isabelle
  imports Main "HOL-Library.Sublist"
begin

section \<open>Caption parsers: a shallow embedding of \<open>caption_parsers.py\<close>\<close>

text \<open>
  The module reads image-caption tables from spreadsheet (XLSX), delimited-text (CSV) and
  structured-record (JSON) files and merges them into one dictionary.  Each Python
  function becomes a HOL function of the same name.  What the code reads from the
  outside (the file system, the parsed content of a file, the directory walk) is a field
  of the record \<open>world\<close>; a call that can raise returns a sum whose left side is the
  exception.  The console output of \<open>print\<close> is a list of messages threaded through
  together with the dictionary under construction.
\<close>

subsection \<open>Python strings\<close>

text \<open>
  A Python \<open>str\<close> is modelled as a \<open>string\<close>; a \<open>char\<close> stands for the code point of
  the same number, so the model covers the strings whose code points are below 256.
  On these, \<open>str.isspace\<close> holds for 9..13, 28..32, 133 and 160, and \<open>str.lower\<close> moves
  A..Z and the Latin-1 capitals 192..222 (without 215) up by 32.
\<close>

definition isspace :: "char \<Rightarrow> bool" where
  "isspace c =
     (let n = (of_char c :: nat)
      in (9 \<le> n \<and> n \<le> 13) \<or> (28 \<le> n \<and> n \<le> 32) \<or> n = 133 \<or> n = 160)"

definition strip :: "string \<Rightarrow> string" where
  "strip s = rev (dropWhile isspace (rev (dropWhile isspace s)))"

definition lower_char :: "char \<Rightarrow> char" where
  "lower_char c =
     (let n = (of_char c :: nat)
      in if (65 \<le> n \<and> n \<le> 90) \<or> (192 \<le> n \<and> n \<le> 222 \<and> n \<noteq> 215)
         then char_of (n + 32) else c)"

definition lower :: "string \<Rightarrow> string" where
  "lower s = map lower_char s"

text \<open>\<open>s.endswith(t)\<close> and \<open>t in s\<close>.\<close>

definition endswith :: "string \<Rightarrow> string \<Rightarrow> bool" where
  "endswith s t = suffix t s"

fun contains :: "string \<Rightarrow> string \<Rightarrow> bool" where
  "contains [] t = (t = [])"
| "contains (c # cs) t = (prefix t (c # cs) \<or> contains cs t)"

text \<open>
  \<open>s.split(sep)\<close> for a separator of one character: the pieces between the
  occurrences of the separator, never an empty list.
\<close>

fun split :: "string \<Rightarrow> char \<Rightarrow> string list" where
  "split [] sep = [[]]"
| "split (c # cs) sep =
     (if c = sep then [] # split cs sep
      else (case split cs sep of p # ps \<Rightarrow> (c # p) # ps | [] \<Rightarrow> [[c]]))"

text \<open>
  \<open>s.replace(old, new)\<close>: the occurrences of \<open>old\<close> are replaced from the left and do
  not overlap; an empty \<open>old\<close> matches before every character and at the end.
\<close>

function replace :: "string \<Rightarrow> string \<Rightarrow> string \<Rightarrow> string" where
  "replace s old new =
     (if old = [] then new @ concat (map (\<lambda>c. c # new) s)
      else if s = [] then []
      else if prefix old s then new @ replace (drop (length old) s) old new
      else hd s # replace (tl s) old new)"
  by pat_completeness auto
termination
  by (relation "measure (\<lambda>(s, old, new). length s)") auto

declare replace.simps [simp del]

text \<open>
  \<open>int(s)\<close> on a string: surrounding whitespace is dropped, one sign is allowed, and the
  digits may be grouped by single underscores.  \<open>None\<close> is the \<open>ValueError\<close>.  The
  whitespace \<open>int\<close> drops is 9..13 and 32 of ASCII and the spaces 133 and 160 beyond it;
  unlike \<open>str.strip\<close> it rejects the separators 28..31.  The limit CPython puts on the
  number of digits is not modelled: a number that long indexes no list.
\<close>

definition is_digit :: "char \<Rightarrow> bool" where
  "is_digit c = (48 \<le> (of_char c :: nat) \<and> (of_char c :: nat) \<le> 57)"

definition int_space :: "char \<Rightarrow> bool" where
  "int_space c =
     (let n = (of_char c :: nat)
      in (9 \<le> n \<and> n \<le> 13) \<or> n = 32 \<or> n = 133 \<or> n = 160)"

fun parse_digits :: "bool \<Rightarrow> nat \<Rightarrow> string \<Rightarrow> nat option" where
  "parse_digits prev acc [] = (if prev then Some acc else None)"
| "parse_digits prev acc (c # cs) =
     (if is_digit c then parse_digits True (10 * acc + (of_char c - 48)) cs
      else if c = CHR ''_'' \<and> prev then parse_digits False acc cs
      else None)"

definition py_int :: "string \<Rightarrow> int option" where
  "py_int s =
     (case rev (dropWhile int_space (rev (dropWhile int_space s))) of
        [] \<Rightarrow> None
      | c # cs \<Rightarrow>
          if c = CHR ''-'' then map_option (\<lambda>n. - int n) (parse_digits False 0 cs)
          else if c = CHR ''+'' then map_option int (parse_digits False 0 cs)
          else map_option int (parse_digits False 0 (c # cs)))"

text \<open>
  \<open>os.path.join\<close> and \<open>os.path.basename\<close> of \<open>posixpath\<close>: a second part that starts
  with a slash replaces the first; otherwise one slash separates the parts unless the
  first is empty or ends with one.
\<close>

definition os_path_join :: "string \<Rightarrow> string \<Rightarrow> string" where
  "os_path_join a b =
     (if prefix ''/'' b then b
      else if a = [] \<or> endswith a ''/'' then a @ b
      else a @ ''/'' @ b)"

definition os_path_basename :: "string \<Rightarrow> string" where
  "os_path_basename p = rev (takeWhile (\<lambda>c. c \<noteq> CHR ''/'') (rev p))"

subsection \<open>Dictionaries\<close>

text \<open>
  A \<open>Dict[str, List[str]]\<close> is an association list in insertion order with one pair
  per key.  \<open>dict_set\<close> is \<open>d[k] = v\<close>, \<open>setdefault_append\<close> is
  \<open>d.setdefault(k, []).append(c)\<close> and \<open>dict_update\<close> is \<open>d.update(other)\<close>.
\<close>

type_synonym caption_mapping = "(string \<times> string list) list"

fun dict_set :: "'k \<Rightarrow> 'v \<Rightarrow> ('k \<times> 'v) list \<Rightarrow> ('k \<times> 'v) list" where
  "dict_set k v [] = [(k, v)]"
| "dict_set k v (p # ps) = (if fst p = k then (k, v) # ps else p # dict_set k v ps)"

definition dict_get :: "('k \<times> 'v) list \<Rightarrow> 'k \<Rightarrow> 'v option" where
  "dict_get d k = map_of d k"

definition keys :: "('k \<times> 'v) list \<Rightarrow> 'k set" where
  "keys d = fst ` set d"

definition setdefault_append :: "string \<Rightarrow> string \<Rightarrow> caption_mapping \<Rightarrow> caption_mapping" where
  "setdefault_append k c d =
     (case dict_get d k of
        None \<Rightarrow> dict_set k [c] d
      | Some cs \<Rightarrow> dict_set k (cs @ [c]) d)"

definition dict_update :: "('k \<times> 'v) list \<Rightarrow> ('k \<times> 'v) list \<Rightarrow> ('k \<times> 'v) list" where
  "dict_update d other = fold (\<lambda>(k, v). dict_set k v) other d"

subsection \<open>Exceptions, console output and the outside world\<close>

text \<open>
  The exceptions the handlers tell apart have a constructor each; every other subclass of
  \<open>Exception\<close> is \<open>OtherException\<close> with its name.
\<close>

datatype exn =
    BadZipFile
  | FileNotFoundError
  | JSONDecodeError
  | AttributeError
  | OtherException string

text \<open>An element of \<open>xml.etree.ElementTree\<close>: tag, attributes, text and children.\<close>

datatype element =
  Element (tag: string) (attrib: "(string \<times> string) list") (etext: "string option")
    (children: "element list")

text \<open>
  A value returned by \<open>json.load\<close>.  A number is kept as its literal, since the code
  never computes with one; a dictionary is an association list read with \<open>map_of\<close>.
\<close>

datatype json =
    JNull
  | JBool bool
  | JNum string
  | JStr string
  | JList "json list"
  | JDict "(string \<times> json) list"

text \<open>
  One constructor per \<open>print\<close> statement of the module, with the values the line
  shows; the wording of a line is not modelled.
\<close>

datatype message =
    Warn_worksheet_not_found string string
  | Parsing_xlsx string nat
  | Row_progress nat nat
  | Err_not_a_zip string
  | Err_processing string exn
  | Parsing_csv string nat
  | Finished_parsing string nat
  | Err_csv_not_found string
  | Parsing_json string
  | Json_item_progress nat
  | Warn_json_root_not_list string
  | Warn_malformed_item string json
  | Err_invalid_json string exn
  | Err_reading_json string exn
  | Scanning string
  | Warn_banglaview_dir_not_found string

text \<open>
  \<open>os.stat\<close> on a path succeeds, fails with an error that \<open>Path.exists\<close> and
  \<open>os.path.exists\<close> both read as "absent", or fails with another \<open>OSError\<close>, which
  \<open>os.path.exists\<close> reads as "absent" too and \<open>Path.exists\<close> raises again.
\<close>

datatype stat_result = Present | Absent | Stat_error exn

text \<open>
  \<open>zipfile\<close>: opening the archive raises or gives its members by name, and opening and
  parsing a member raises or gives the root element.  \<open>csv_rows\<close>: opening and reading
  the file with \<open>csv.DictReader\<close> raises or gives the rows, a row holding for each
  column name a string or \<open>None\<close>.  \<open>json_load\<close>: opening and decoding the file.
  \<open>os_walk\<close>: the triples \<open>(root, dirs, files)\<close> in the order \<open>os.walk\<close> yields them.
\<close>

record world =
  stat :: "string \<Rightarrow> stat_result"
  zipfile :: "string \<Rightarrow> exn + (string \<rightharpoonup> exn + element)"
  csv_rows :: "string \<Rightarrow> exn + (string \<times> string option) list list"
  json_load :: "string \<Rightarrow> exn + json"
  os_walk :: "string \<Rightarrow> (string \<times> string list \<times> string list) list"

definition os_path_exists :: "world \<Rightarrow> string \<Rightarrow> bool" where
  "os_path_exists w p = (stat w p = Present)"

definition Path_exists :: "world \<Rightarrow> string \<Rightarrow> exn + bool" where
  "Path_exists w p =
     (case stat w p of
        Present \<Rightarrow> Inr True
      | Absent \<Rightarrow> Inr False
      | Stat_error e \<Rightarrow> Inl e)"

text \<open>
  A block of statements ends normally or by an exception; either way the dictionary and
  the output reached so far remain, since both are mutated in place.
\<close>

datatype flow = Done | Raise exn

type_synonym state = "caption_mapping \<times> message list"

subsection \<open>\<open>XLSXCaptionParser\<close>\<close>

text \<open>\<open>tree.findall(".//tag")\<close>: the descendants of the root with that tag, in document order.\<close>

fun descendants :: "element \<Rightarrow> element list" where
  "descendants (Element t a x cs) = concat (map (\<lambda>c. c # descendants c) cs)"

definition findall :: "element \<Rightarrow> string \<Rightarrow> element list" where
  "findall root t = filter (\<lambda>e. tag e = t) (descendants root)"

definition ns :: string where
  "ns = ''{http://schemas.openxmlformats.org/spreadsheetml/2006/main}''"

definition sheet_file :: string where
  "sheet_file = ''xl/worksheets/sheet1.xml''"

definition shared_strings_file :: string where
  "shared_strings_file = ''xl/sharedStrings.xml''"

text \<open>The truth value of an \<open>Optional[str]\<close>: neither \<open>None\<close> nor empty.\<close>

definition truthy :: "string option \<Rightarrow> bool" where
  "truthy v = (case v of None \<Rightarrow> False | Some s \<Rightarrow> s \<noteq> [])"

definition get_cell_value :: "string list \<Rightarrow> element \<Rightarrow> string option" where
  "get_cell_value shared_strings cell =
     (let cell_type = map_of (attrib cell) ''t'';
          value_elem = find (\<lambda>v. endswith (tag v) ''v'') (children cell)
      in case value_elem of
           None \<Rightarrow> None
         | Some ve \<Rightarrow>
             if truthy (etext ve) then
               (if cell_type = Some ''s'' then
                  (case py_int (the (etext ve)) of
                     None \<Rightarrow> None
                   | Some idx \<Rightarrow>
                       if 0 \<le> idx \<and> idx < int (length shared_strings)
                       then Some (shared_strings ! nat idx) else None)
                else etext ve)
             else None)"

text \<open>
  The name of a row's image as the path is built from it: cut at the first \<open>#\<close>, then
  every \<open>*MG*\<close> rewritten to \<open>IMG_\<close>.
\<close>

definition xlsx_img_name :: "string \<Rightarrow> string" where
  "xlsx_img_name img_name_val =
     replace (if CHR ''#'' \<in> set img_name_val then hd (split img_name_val CHR ''#'')
              else img_name_val) ''*MG*'' ''IMG_''"

definition xlsx_img_path :: "string \<Rightarrow> string \<Rightarrow> string" where
  "xlsx_img_path images_path img_name_val =
     (if images_path \<noteq> [] then os_path_join images_path (xlsx_img_name img_name_val)
      else xlsx_img_name img_name_val)"

text \<open>
  The body of the row loop after the progress line.  The only statement that can raise,
  \<open>Path(img_path).exists()\<close>, comes before the dictionary is touched.
\<close>

definition xlsx_row ::
  "world \<Rightarrow> string list \<Rightarrow> string \<Rightarrow> bool \<Rightarrow> element \<Rightarrow> caption_mapping \<Rightarrow> exn + caption_mapping"
where
  "xlsx_row w shared_strings images_path validate_images row caption_mapping =
     (let cells = filter (\<lambda>el. endswith (tag el) ''c'') (children row)
      in if length cells < 2 then Inr caption_mapping
         else
           let img_name_val = get_cell_value shared_strings (cells ! 0);
               caption_val = get_cell_value shared_strings (cells ! 1)
           in if truthy img_name_val then
                (let img_path = xlsx_img_path images_path (the img_name_val)
                 in case (if \<not> validate_images then Inr True else Path_exists w img_path) of
                      Inl e \<Rightarrow> Inl e
                    | Inr ok \<Rightarrow>
                        if ok \<and> truthy caption_val then
                          Inr (setdefault_append img_path
                                 (''<start> '' @ strip (the caption_val) @ '' <end>'')
                                 caption_mapping)
                        else Inr caption_mapping)
              else Inr caption_mapping)"

fun xlsx_rows ::
  "world \<Rightarrow> string list \<Rightarrow> string \<Rightarrow> bool \<Rightarrow> nat \<Rightarrow> nat \<Rightarrow> element list \<Rightarrow> state \<Rightarrow> flow \<times> state"
where
  "xlsx_rows w shared_strings images_path validate_images total_rows idx [] s = (Done, s)"
| "xlsx_rows w shared_strings images_path validate_images total_rows idx (row # rows) (m, out) =
     (let out' = (if idx mod 500 = 0 \<or> idx = total_rows
                  then out @ [Row_progress idx total_rows] else out)
      in case xlsx_row w shared_strings images_path validate_images row m of
           Inl e \<Rightarrow> (Raise e, (m, out'))
         | Inr m' \<Rightarrow>
             xlsx_rows w shared_strings images_path validate_images total_rows (Suc idx) rows
               (m', out'))"

text \<open>
  The shared-string table: the text of every \<open>t\<close> element of the member
  \<open>xl/sharedStrings.xml\<close> that has one, or the empty list without that member.
\<close>

definition load_shared_strings :: "(string \<rightharpoonup> exn + element) \<Rightarrow> exn + string list" where
  "load_shared_strings xlsx =
     (case xlsx shared_strings_file of
        None \<Rightarrow> Inr []
      | Some (Inl e) \<Rightarrow> Inl e
      | Some (Inr tree) \<Rightarrow>
          Inr (map (\<lambda>t. the (etext t))
                 (filter (\<lambda>t. etext t \<noteq> None) (findall tree (ns @ ''t'')))))"

text \<open>The rows the loop visits: \<open>rows[start_row:]\<close>.\<close>

definition data_rows :: "bool \<Rightarrow> element \<Rightarrow> element list" where
  "data_rows has_header tree =
     (let rows = findall tree (ns @ ''row'');
          start_row = (if has_header \<and> length rows > 0 then 1 else 0)
      in drop start_row rows)"

text \<open>The \<open>try\<close> block of \<open>extract\<close>, from the empty dictionary.\<close>

definition xlsx_try :: "bool \<Rightarrow> world \<Rightarrow> string \<Rightarrow> string \<Rightarrow> bool \<Rightarrow> flow \<times> state" where
  "xlsx_try has_header w xlsx_file images_path validate_images =
     (case zipfile w xlsx_file of
        Inl e \<Rightarrow> (Raise e, ([], []))
      | Inr xlsx \<Rightarrow>
          (case load_shared_strings xlsx of
             Inl e \<Rightarrow> (Raise e, ([], []))
           | Inr shared_strings \<Rightarrow>
               (case xlsx sheet_file of
                  None \<Rightarrow> (Done, ([], [Warn_worksheet_not_found sheet_file xlsx_file]))
                | Some (Inl e) \<Rightarrow> (Raise e, ([], []))
                | Some (Inr tree) \<Rightarrow>
                    let total_rows = length (data_rows has_header tree)
                    in xlsx_rows w shared_strings images_path validate_images total_rows 1
                         (data_rows has_header tree)
                         ([], [Parsing_xlsx (os_path_basename xlsx_file) total_rows]))))"

text \<open>
  \<open>XLSXCaptionParser(has_header).extract(xlsx_file, images_path, validate_images)\<close>: the
  two handlers print one line and fall through to \<open>return caption_mapping\<close>.
\<close>

definition XLSXCaptionParser_extract ::
  "bool \<Rightarrow> world \<Rightarrow> string \<Rightarrow> string \<Rightarrow> bool \<Rightarrow> state" where
  "XLSXCaptionParser_extract has_header w xlsx_file images_path validate_images =
     (case xlsx_try has_header w xlsx_file images_path validate_images of
        (Done, s) \<Rightarrow> s
      | (Raise BadZipFile, (m, out)) \<Rightarrow> (m, out @ [Err_not_a_zip xlsx_file])
      | (Raise e, (m, out)) \<Rightarrow> (m, out @ [Err_processing xlsx_file e]))"

subsection \<open>\<open>CSVCaptionParser\<close>\<close>

text \<open>\<open>row.get(key)\<close> on a row of \<open>csv.DictReader\<close>.\<close>

definition row_get :: "(string \<times> string option) list \<Rightarrow> string \<Rightarrow> string option" where
  "row_get row k = (case map_of row k of None \<Rightarrow> None | Some v \<Rightarrow> v)"

definition csv_img_name :: "string \<Rightarrow> string" where
  "csv_img_name img_name =
     (if CHR ''#'' \<in> set img_name then hd (split img_name CHR ''#'') else img_name)"

definition csv_img_path :: "string \<Rightarrow> string \<Rightarrow> string" where
  "csv_img_path images_path img_name =
     (if images_path \<noteq> [] then os_path_join images_path (csv_img_name img_name)
      else csv_img_name img_name)"

text \<open>
  The body of the row loop after the progress line, on the dictionary and the counter
  \<open>processed_rows_count\<close>.
\<close>

definition csv_row ::
  "world \<Rightarrow> string \<Rightarrow> bool \<Rightarrow> (string \<times> string option) list \<Rightarrow> caption_mapping \<times> nat
     \<Rightarrow> exn + caption_mapping \<times> nat"
where
  "csv_row w images_path validate_images row mc =
     (let img_name = row_get row ''caption_id'';
          caption_bn = row_get row ''bengali_caption''
      in if truthy img_name \<and> truthy caption_bn then
           (let img_path = csv_img_path images_path (the img_name)
            in case (if validate_images then Path_exists w img_path else Inr True) of
                 Inl e \<Rightarrow> Inl e
               | Inr ok \<Rightarrow>
                   if validate_images \<and> \<not> ok then Inr mc
                   else Inr (setdefault_append img_path
                               ('' <start> '' @ strip (the caption_bn) @ '' <end> '') (fst mc),
                             Suc (snd mc)))
         else Inr mc)"

fun csv_loop ::
  "world \<Rightarrow> string \<Rightarrow> bool \<Rightarrow> nat \<Rightarrow> nat \<Rightarrow> (string \<times> string option) list list
     \<Rightarrow> (caption_mapping \<times> nat) \<times> message list \<Rightarrow> flow \<times> (caption_mapping \<times> nat) \<times> message list"
where
  "csv_loop w images_path validate_images total_rows idx [] s = (Done, s)"
| "csv_loop w images_path validate_images total_rows idx (row # rows) (mc, out) =
     (let out' = (if idx mod 10000 = 0 \<or> idx = total_rows
                  then out @ [Row_progress idx total_rows] else out)
      in case csv_row w images_path validate_images row mc of
           Inl e \<Rightarrow> (Raise e, (mc, out'))
         | Inr mc' \<Rightarrow>
             csv_loop w images_path validate_images total_rows (Suc idx) rows (mc', out'))"

text \<open>
  The \<open>try\<close> block.  The folder shown in the first line comes from \<open>os.path.abspath\<close>
  and is left out of the message.
\<close>

definition csv_try :: "world \<Rightarrow> string \<Rightarrow> string \<Rightarrow> bool \<Rightarrow> flow \<times> state" where
  "csv_try w csv_file_path images_path validate_images =
     (case csv_rows w csv_file_path of
        Inl e \<Rightarrow> (Raise e, ([], []))
      | Inr rows \<Rightarrow>
          (case csv_loop w images_path validate_images (length rows) 1 rows
                  (([], 0), [Parsing_csv (os_path_basename csv_file_path) (length rows)]) of
             (Done, ((m, cnt), out)) \<Rightarrow>
               (Done, (m, out @ [Finished_parsing (os_path_basename csv_file_path) cnt]))
           | (Raise e, ((m, cnt), out)) \<Rightarrow> (Raise e, (m, out))))"

definition CSVCaptionParser_extract :: "world \<Rightarrow> string \<Rightarrow> string \<Rightarrow> bool \<Rightarrow> state" where
  "CSVCaptionParser_extract w csv_file_path images_path validate_images =
     (case csv_try w csv_file_path images_path validate_images of
        (Done, s) \<Rightarrow> s
      | (Raise FileNotFoundError, (m, out)) \<Rightarrow> (m, out @ [Err_csv_not_found csv_file_path])
      | (Raise e, (m, out)) \<Rightarrow> (m, out @ [Err_processing csv_file_path e]))"

subsection \<open>\<open>JSONCaptionParser\<close>\<close>

text \<open>
  \<open>str(caption)\<close> returns a string as it is.  How the builtin renders a number, a
  boolean, a list or a dictionary is taken as the parameter \<open>render\<close>.
\<close>

definition str_of :: "(json \<Rightarrow> string) \<Rightarrow> json \<Rightarrow> string" where
  "str_of render v = (case v of JStr s \<Rightarrow> s | _ \<Rightarrow> render v)"

text \<open>
  The test \<open>not isinstance(item, dict) or 'filename' not in item or 'caption' not in item\<close>.
\<close>

definition malformed :: "json \<Rightarrow> bool" where
  "malformed item =
     (case item of
        JDict d \<Rightarrow> map_of d ''filename'' = None \<or> map_of d ''caption'' = None
      | _ \<Rightarrow> True)"

definition item_get :: "json \<Rightarrow> string \<Rightarrow> json" where
  "item_get item k = (case item of JDict d \<Rightarrow> the (map_of d k) | _ \<Rightarrow> JNull)"

definition formatted_captions :: "(json \<Rightarrow> string) \<Rightarrow> json \<Rightarrow> string list" where
  "formatted_captions render raw =
     (let raw_captions = (case raw of JList l \<Rightarrow> l | _ \<Rightarrow> [raw])
      in map (\<lambda>caption. ''<start>'' @ strip (str_of render caption) @ '' '')
           (filter (\<lambda>caption. caption \<noteq> JNull) raw_captions))"

text \<open>
  The body of the item loop after the progress line.  \<open>item['filename'].strip()\<close> raises
  \<open>AttributeError\<close> unless the value is a string.
\<close>

definition json_item ::
  "(json \<Rightarrow> string) \<Rightarrow> world \<Rightarrow> string \<Rightarrow> string \<Rightarrow> bool \<Rightarrow> json \<Rightarrow> state \<Rightarrow> flow \<times> state"
where
  "json_item render w file_path images_path validate_images item s =
     (if malformed item then (Done, (fst s, snd s @ [Warn_malformed_item file_path item]))
      else
        (case item_get item ''filename'' of
           JStr name \<Rightarrow>
             (let img_name_abs = os_path_join images_path (strip name);
                  captions = formatted_captions render (item_get item ''caption'')
              in case (if \<not> validate_images then Inr True else Path_exists w img_name_abs) of
                   Inl e \<Rightarrow> (Raise e, s)
                 | Inr ok \<Rightarrow>
                     if ok \<and> captions \<noteq> []
                     then (Done, (dict_set img_name_abs captions (fst s), snd s))
                     else (Done, s))
         | _ \<Rightarrow> (Raise AttributeError, s)))"

fun json_loop ::
  "(json \<Rightarrow> string) \<Rightarrow> world \<Rightarrow> string \<Rightarrow> string \<Rightarrow> bool \<Rightarrow> nat \<Rightarrow> json list \<Rightarrow> state
     \<Rightarrow> flow \<times> state"
where
  "json_loop render w file_path images_path validate_images idx [] s = (Done, s)"
| "json_loop render w file_path images_path validate_images idx (item # items) (m, out) =
     (let out' = (if idx mod 1000 = 0 then out @ [Json_item_progress idx] else out)
      in case json_item render w file_path images_path validate_images item (m, out') of
           (Raise e, s') \<Rightarrow> (Raise e, s')
         | (Done, s') \<Rightarrow>
             json_loop render w file_path images_path validate_images (Suc idx) items s')"

text \<open>The \<open>try\<close> block, after the first line of output.\<close>

definition json_try ::
  "(json \<Rightarrow> string) \<Rightarrow> world \<Rightarrow> string \<Rightarrow> string \<Rightarrow> bool \<Rightarrow> flow \<times> state" where
  "json_try render w file_path images_path validate_images =
     (let out0 = [Parsing_json (os_path_basename file_path)]
      in case json_load w file_path of
           Inl e \<Rightarrow> (Raise e, ([], out0))
         | Inr caption_data \<Rightarrow>
             (case caption_data of
                JList items \<Rightarrow>
                  (case json_loop render w file_path images_path validate_images 0 items
                          ([], out0) of
                     (Done, (m, out)) \<Rightarrow>
                       (Done, (m, out @ [Finished_parsing (os_path_basename file_path)
                                            (length m)]))
                   | (Raise e, s) \<Rightarrow> (Raise e, s))
              | _ \<Rightarrow> (Done, ([], out0 @ [Warn_json_root_not_list file_path]))))"

definition JSONCaptionParser_extract ::
  "(json \<Rightarrow> string) \<Rightarrow> world \<Rightarrow> string \<Rightarrow> string \<Rightarrow> bool \<Rightarrow> state" where
  "JSONCaptionParser_extract render w file_path images_path validate_images =
     (case json_try render w file_path images_path validate_images of
        (Done, s) \<Rightarrow> s
      | (Raise JSONDecodeError, (m, out)) \<Rightarrow> (m, out @ [Err_invalid_json file_path JSONDecodeError])
      | (Raise e, (m, out)) \<Rightarrow> (m, out @ [Err_reading_json file_path e]))"

subsection \<open>\<open>collect_all_caption_data\<close>\<close>

text \<open>
  What the body of the inner loop does with one file: \<open>Ignore\<close> is the final
  \<open>continue\<close>, \<open>Skip_banglaview\<close> the \<open>continue\<close> after the warning, and \<open>Extract\<close>
  names the parser object, the file and the image directory of the call to \<open>extract\<close>.
\<close>

datatype parser = Xlsx_parser bool | Csv_parser | Json_parser

datatype route = Ignore | Skip_banglaview string | Extract parser string string

definition classify :: "world \<Rightarrow> string \<Rightarrow> string \<Rightarrow> string \<Rightarrow> route" where
  "classify w base_dir root file =
     (let lower_file = lower file;
          file_path = os_path_join root file
      in if endswith lower_file ''.xlsx'' \<and> contains lower_file ''captioning'' then
           Extract (Xlsx_parser True) file_path
             (if \<not> os_path_exists w (os_path_join root ''image'') then root
              else os_path_join root ''image'')
         else if endswith lower_file ''.csv'' \<and> contains lower_file ''ban-cap'' then
           Extract Csv_parser file_path
             (if \<not> os_path_exists w
                     (os_path_join (os_path_join base_dir ''Flickr 8k Dataset'') ''Images'')
              then base_dir
              else os_path_join (os_path_join base_dir ''Flickr 8k Dataset'') ''Images'')
         else if lower_file = ''banglaview_dataset.xlsx'' then
           (if \<not> os_path_exists w
                   (os_path_join (os_path_join base_dir ''flickr30k_images'')
                      ''flickr30k_images'')
            then Skip_banglaview
                   (os_path_join (os_path_join base_dir ''flickr30k_images'')
                      ''flickr30k_images'')
            else Extract (Xlsx_parser False) file_path
                   (os_path_join (os_path_join base_dir ''flickr30k_images'')
                      ''flickr30k_images''))
         else if endswith lower_file ''.json'' \<and> contains lower_file ''captions'' then
           Extract Json_parser file_path
             (if \<not> os_path_exists w (os_path_join root ''images'')
              then os_path_join (os_path_join base_dir ''rxxch9vw59.2'') ''images''
              else os_path_join root ''images'')
         else Ignore)"

definition parser_extract ::
  "(json \<Rightarrow> string) \<Rightarrow> world \<Rightarrow> parser \<Rightarrow> string \<Rightarrow> string \<Rightarrow> bool \<Rightarrow> state" where
  "parser_extract render w p file_path images_path validate_images =
     (case p of
        Xlsx_parser has_header \<Rightarrow>
          XLSXCaptionParser_extract has_header w file_path images_path validate_images
      | Csv_parser \<Rightarrow> CSVCaptionParser_extract w file_path images_path validate_images
      | Json_parser \<Rightarrow>
          JSONCaptionParser_extract render w file_path images_path validate_images)"

text \<open>One pass of the inner loop, on \<open>all_captions\<close> and the output.\<close>

definition collect_file ::
  "(json \<Rightarrow> string) \<Rightarrow> world \<Rightarrow> string \<Rightarrow> bool \<Rightarrow> string \<Rightarrow> string \<Rightarrow> state \<Rightarrow> state" where
  "collect_file render w base_dir validate_images root file s =
     (case classify w base_dir root file of
        Ignore \<Rightarrow> s
      | Skip_banglaview img_dir \<Rightarrow> (fst s, snd s @ [Warn_banglaview_dir_not_found img_dir])
      | Extract p file_path img_dir \<Rightarrow>
          (let r = parser_extract render w p file_path img_dir validate_images
           in (dict_update (fst s) (fst r), snd s @ snd r)))"

definition collect_files ::
  "(json \<Rightarrow> string) \<Rightarrow> world \<Rightarrow> string \<Rightarrow> bool \<Rightarrow> string \<Rightarrow> string list \<Rightarrow> state \<Rightarrow> state" where
  "collect_files render w base_dir validate_images root files s =
     fold (collect_file render w base_dir validate_images root) files s"

definition collect_walk ::
  "(json \<Rightarrow> string) \<Rightarrow> world \<Rightarrow> string \<Rightarrow> bool \<Rightarrow> (string \<times> string list \<times> string list) list
     \<Rightarrow> state \<Rightarrow> state" where
  "collect_walk render w base_dir validate_images triples s =
     fold (\<lambda>(root, dirs, files). collect_files render w base_dir validate_images root files)
       triples s"

definition collect_run :: "(json \<Rightarrow> string) \<Rightarrow> world \<Rightarrow> string \<Rightarrow> bool \<Rightarrow> state" where
  "collect_run render w base_dir validate_images =
     collect_walk render w base_dir validate_images (os_walk w base_dir)
       ([], [Scanning base_dir])"

definition collect_all_caption_data ::
  "(json \<Rightarrow> string) \<Rightarrow> world \<Rightarrow> string \<Rightarrow> bool \<Rightarrow> caption_mapping" where
  "collect_all_caption_data render w base_dir validate_images =
     fst (collect_run render w base_dir validate_images)"

subsection \<open>The walk as a sequence of files\<close>

text \<open>
  The two nested loops of \<open>collect_all_caption_data\<close> visit the pairs of a directory
  and one of its files in this order.  \<open>per_file_mapping\<close> is the value of the local
  variable \<open>captions\<close> when the body of the inner loop ends: the dictionary \<open>extract\<close>
  returned, or the initial empty one where the body ended by \<open>continue\<close>.
\<close>

definition walk_files :: "world \<Rightarrow> string \<Rightarrow> (string \<times> string) list" where
  "walk_files w base_dir =
     concat (map (\<lambda>(root, dirs, files). map (Pair root) files) (os_walk w base_dir))"

definition per_file_mapping ::
  "(json \<Rightarrow> string) \<Rightarrow> world \<Rightarrow> string \<Rightarrow> bool \<Rightarrow> string \<times> string \<Rightarrow> caption_mapping" where
  "per_file_mapping render w base_dir validate_images rf =
     (case classify w base_dir (fst rf) (snd rf) of
        Extract p file_path img_dir \<Rightarrow>
          fst (parser_extract render w p file_path img_dir validate_images)
      | _ \<Rightarrow> [])"

text \<open>A dictionary with one pair per key and no empty caption list.\<close>

definition wf_mapping :: "caption_mapping \<Rightarrow> bool" where
  "wf_mapping d = (distinct (map fst d) \<and> (\<forall>(k, cs) \<in> set d. cs \<noteq> []))"

text \<open>The records named by the warnings about malformed items in an output, in order.\<close>

fun malformed_warnings :: "message list \<Rightarrow> json list" where
  "malformed_warnings [] = []"
| "malformed_warnings (Warn_malformed_item f item # out) = item # malformed_warnings out"
| "malformed_warnings (x # out) = malformed_warnings out"

text \<open>
  \<open>extends m m'\<close>: every key of \<open>m\<close> is a key of \<open>m'\<close>, and its captions in \<open>m\<close>
  begin its captions in \<open>m'\<close>.
\<close>

definition extends :: "caption_mapping \<Rightarrow> caption_mapping \<Rightarrow> bool" where
  "extends m m' = (\<forall>k cs. dict_get m k = Some cs \<longrightarrow> (\<exists>more. dict_get m' k = Some (cs @ more)))"


subsection \<open>A small data set\<close>

text \<open>
  A directory \<open>data\<close> with two JSON files that name the same image, the fixed-name
  spreadsheet without its image directory, a file no rule matches, a spreadsheet with a
  header and a CSV file; beside them, outside the walk, spreadsheets that are not zip files,
  lack the worksheet or do not parse, a spreadsheet whose first shared string is the
  empty \<open><si><t/></si>\<close>, and a JSON file whose root is a dictionary.  Two
  image paths fail in \<open>os.stat\<close> with a permission error.  \<open>example_render\<close>
  stands for \<open>str\<close> on values that are not strings.
\<close>

definition example_render :: "json \<Rightarrow> string" where
  "example_render v =
     (case v of
        JNull \<Rightarrow> ''None''
      | JBool b \<Rightarrow> (if b then ''True'' else ''False'')
      | JNum lit \<Rightarrow> lit
      | _ \<Rightarrow> [])"

definition example_cell :: "string option \<Rightarrow> string \<Rightarrow> element" where
  "example_cell t v =
     Element (ns @ ''c'') (case t of None \<Rightarrow> [] | Some x \<Rightarrow> [(''t'', x)]) None
       [Element (ns @ ''v'') [] (Some v) []]"

definition example_sheet :: element where
  "example_sheet =
     Element (ns @ ''worksheet'') [] None
       [Element (ns @ ''sheetData'') [] None
          [Element (ns @ ''row'') [] None
             [example_cell (Some ''s'') ''0'', example_cell (Some ''s'') ''1''],
           Element (ns @ ''row'') [] None
             [example_cell (Some ''s'') ''2'', example_cell None ''Hello''],
           Element (ns @ ''row'') [] None
             [example_cell (Some ''s'') ''7'', example_cell None ''lost''],
           Element (ns @ ''row'') [] None
             [example_cell None ''photo1.jpg#2'', example_cell (Some ''s'') ''3''],
           Element (ns @ ''row'') [] None
             [example_cell None ''photo3.jpg'', example_cell None ''More'']]]"

definition example_shared_strings :: element where
  "example_shared_strings =
     Element (ns @ ''sst'') [] None
       [Element (ns @ ''si'') [] None [Element (ns @ ''t'') [] (Some ''name'') []],
        Element (ns @ ''si'') [] None [Element (ns @ ''t'') [] (Some ''caption'') []],
        Element (ns @ ''si'') [] None [Element (ns @ ''t'') [] (Some ''photo1.jpg#1'') []],
        Element (ns @ ''si'') [] None [Element (ns @ ''t'') [] (Some '' World '') []]]"

definition example_archive :: "string \<rightharpoonup> exn + element" where
  "example_archive =
     [sheet_file \<mapsto> Inr example_sheet, shared_strings_file \<mapsto> Inr example_shared_strings]"

definition example_bad_archive :: "string \<rightharpoonup> exn + element" where
  "example_bad_archive =
     [sheet_file \<mapsto> Inr example_sheet,
      shared_strings_file \<mapsto> Inl (OtherException ''ParseError'')]"

definition example_shift_strings :: element where
  "example_shift_strings =
     Element (ns @ ''sst'') [] None
       [Element (ns @ ''si'') [] None [Element (ns @ ''t'') [] None []],
        Element (ns @ ''si'') [] None [Element (ns @ ''t'') [] (Some ''a.jpg'') []],
        Element (ns @ ''si'') [] None [Element (ns @ ''t'') [] (Some ''b.jpg'') []]]"

definition example_shift_sheet :: element where
  "example_shift_sheet =
     Element (ns @ ''worksheet'') [] None
       [Element (ns @ ''sheetData'') [] None
          [Element (ns @ ''row'') [] None
             [example_cell (Some ''s'') ''1'', example_cell None ''Hello''],
           Element (ns @ ''row'') [] None
             [example_cell (Some ''s'') ''2'', example_cell None ''World'']]]"

definition example_shift_archive :: "string \<rightharpoonup> exn + element" where
  "example_shift_archive =
     [sheet_file \<mapsto> Inr example_shift_sheet,
      shared_strings_file \<mapsto> Inr example_shift_strings]"

definition example_csv :: "(string \<times> string option) list list" where
  "example_csv =
     [[(''caption_id'', Some ''img2.jpg#0''), (''bengali_caption'', Some '' good '')],
      [(''caption_id'', Some ''img2.jpg#1''), (''bengali_caption'', Some ''fine'')],
      [(''caption_id'', Some ''img3.jpg''), (''bengali_caption'', Some ''gone'')],
      [(''caption_id'', Some ''img4.jpg''), (''bengali_caption'', None)]]"

definition example_json_a :: json where
  "example_json_a =
     JList [JDict [(''filename'', JStr ''a.jpg''), (''caption'', JList [JStr ''x'', JStr ''y''])],
            JDict [(''filename'', JStr '' *MG*1.jpg#2 ''), (''caption'', JStr '' z '')]]"

definition example_json_b :: json where
  "example_json_b =
     JList [JDict [(''filename'', JStr ''a.jpg''), (''caption'', JStr ''w'')],
            JDict [(''filename'', JStr ''only.jpg'')],
            JDict [(''filename'', JNum ''7''), (''caption'', JStr ''v'')],
            JDict [(''filename'', JStr ''late.jpg''), (''caption'', JStr ''u'')]]"

definition example_world :: world where
  "example_world =
     \<lparr> stat = (\<lambda>p. if p = ''data/rxxch9vw59.2/images/a.jpg'' then Present
                     else if p = ''data/photo1.jpg'' then Present
                     else if p = ''data/img2.jpg'' then Present
                     else if p = ''data/photo3.jpg'' then Stat_error (OtherException ''PermissionError'')
                     else if p = ''data/img3.jpg'' then Stat_error (OtherException ''PermissionError'')
                     else Absent),
       zipfile = (\<lambda>p. if p = ''data/captioning.xlsx''
                        then Inr example_archive
                        else if p = ''data/captioning_shift.xlsx'' then Inr example_shift_archive
                        else if p = ''data/captioning_old.xlsx'' then Inl BadZipFile
                        else if p = ''data/captioning_empty.xlsx'' then Inr Map.empty
                        else if p = ''data/captioning_bad.xlsx''
                        then Inr [sheet_file \<mapsto> Inl (OtherException ''ParseError'')]
                        else if p = ''data/captioning_bad_strings.xlsx''
                        then Inr example_bad_archive
                        else Inl FileNotFoundError),
       csv_rows = (\<lambda>p. if p = ''data/ban-cap.csv''
                         then Inr example_csv
                         else Inl FileNotFoundError),
       json_load = (\<lambda>p. if p = ''data/captions_a.json'' then Inr example_json_a
                          else if p = ''data/captions_b.json'' then Inr example_json_b
                          else if p = ''data/captions_c.json''
                          then Inr (JDict [(''filename'', JStr ''a.jpg''), (''caption'', JStr ''x'')])
                          else Inl JSONDecodeError),
       os_walk = (\<lambda>p. if p = ''data''
                        then [(''data'', [], [''captions_a.json'', ''captions_b.json'',
                                ''BanglaView_Dataset.xlsx'', ''readme.txt'', ''captioning.xlsx'',
                                ''ban-cap.csv''])]
                        else []) \<rparr>"

section \<open>Properties\<close>

subsection \<open>Dictionaries\<close>

lemma map_of_dict_set: "map_of (dict_set k v d) = (map_of d)(k \<mapsto> v)"
  by (induction d) (auto simp: fun_eq_iff)

lemma dict_get_dict_set: "dict_get (dict_set k v d) k' = (if k' = k then Some v else dict_get d k')"
  by (simp add: dict_get_def map_of_dict_set)

lemma keys_dict_set: "keys (dict_set k v d) = insert k (keys d)"
  by (induction d) (auto simp: keys_def)

lemma map_fst_dict_set:
  "map fst (dict_set k v d) = (if k \<in> fst ` set d then map fst d else map fst d @ [k])"
  by (induction d) auto

lemma distinct_dict_set: "distinct (map fst d) \<Longrightarrow> distinct (map fst (dict_set k v d))"
  by (simp add: map_fst_dict_set)

lemma set_dict_set: "set (dict_set k v d) \<subseteq> insert (k, v) (set d)"
  by (induction d) auto

lemma dict_get_setdefault_append:
  "dict_get (setdefault_append k c d) k' =
     (if k' = k then Some ((case dict_get d k of None \<Rightarrow> [] | Some cs \<Rightarrow> cs) @ [c])
      else dict_get d k')"
  by (simp add: setdefault_append_def dict_get_dict_set split: option.splits)

lemma keys_setdefault_append: "keys (setdefault_append k c d) = insert k (keys d)"
  by (simp add: setdefault_append_def keys_dict_set split: option.splits)

lemma distinct_setdefault_append:
  "distinct (map fst d) \<Longrightarrow> distinct (map fst (setdefault_append k c d))"
  by (simp add: setdefault_append_def distinct_dict_set split: option.splits)

lemma dict_get_None_iff: "dict_get d k = None \<longleftrightarrow> k \<notin> keys d"
  by (simp add: dict_get_def keys_def map_of_eq_None_iff)

lemma dict_get_Some_mem: "dict_get d k = Some v \<Longrightarrow> (k, v) \<in> set d"
  by (simp add: dict_get_def map_of_SomeD)

lemma dict_get_fold_set:
  "distinct (map fst other) \<Longrightarrow>
   dict_get (fold (\<lambda>(k, v). dict_set k v) other d) k =
     (case dict_get other k of None \<Rightarrow> dict_get d k | Some v \<Rightarrow> Some v)"
proof (induction other arbitrary: d)
  case Nil
  then show ?case by (simp add: dict_get_def)
next
  case (Cons p ps)
  obtain a b where p: "p = (a, b)" by (cases p)
  from Cons.prems have d: "distinct (map fst ps)" and a: "a \<notin> fst ` set ps" by (auto simp: p)
  from a have n: "dict_get ps a = None" by (simp add: dict_get_None_iff keys_def)
  show ?case
    using Cons.IH [OF d, of "dict_set a b d"] n
    by (auto simp: p dict_get_def map_of_dict_set split: option.splits)
qed

lemma dict_get_dict_update:
  "distinct (map fst other) \<Longrightarrow>
   dict_get (dict_update d other) k =
     (case dict_get other k of None \<Rightarrow> dict_get d k | Some v \<Rightarrow> Some v)"
  by (simp add: dict_update_def dict_get_fold_set)

lemma dict_set_values:
  "(k', cs') \<in> set (dict_set k cs d) \<Longrightarrow> (k', cs') = (k, cs) \<or> (k', cs') \<in> set d"
  using set_dict_set [of k cs d] by auto

lemma setdefault_append_values:
  assumes "(k', cs') \<in> set (setdefault_append k c d)" and "c' \<in> set cs'"
  shows "c' = c \<or> (\<exists>cs. (k', cs) \<in> set d \<and> c' \<in> set cs)"
proof (cases "dict_get d k")
  case None
  with assms show ?thesis
    by (auto simp: setdefault_append_def dest!: dict_set_values)
next
  case (Some old)
  then have "(k, old) \<in> set d" by (rule dict_get_Some_mem)
  with assms Some show ?thesis
    by (auto simp: setdefault_append_def dest!: dict_set_values)
qed

lemma captions_invariant_setdefault_append:
  assumes "\<forall>(k, cs) \<in> set d. \<forall>c \<in> set cs. Q c" and "Q c"
  shows "\<forall>(k, cs) \<in> set (setdefault_append k0 c d). \<forall>c \<in> set cs. Q c"
  using assms by (auto dest!: setdefault_append_values)

lemma captions_invariant_dict_set:
  assumes "\<forall>(k, cs) \<in> set d. \<forall>c \<in> set cs. Q c" and "\<forall>c \<in> set cs0. Q c"
  shows "\<forall>(k, cs) \<in> set (dict_set k0 cs0 d). \<forall>c \<in> set cs. Q c"
  using assms by (auto dest!: dict_set_values)

subsection \<open>Invariants of the three loops\<close>

lemma xlsx_row_cases:
  assumes "xlsx_row w ss ip v row m = Inr m'"
  shows "m' = m \<or>
         (\<exists>name cap. m' = setdefault_append (xlsx_img_path ip name)
                             (''<start> '' @ strip cap @ '' <end>'') m)"
  using assms by (auto simp: xlsx_row_def Let_def split: if_splits sum.splits)

lemma xlsx_rows_invariant:
  assumes step: "\<And>row m m'. P m \<Longrightarrow> xlsx_row w ss ip v row m = Inr m' \<Longrightarrow> P m'"
  shows "P m \<Longrightarrow> P (fst (snd (xlsx_rows w ss ip v tot idx rows (m, out))))"
proof (induction rows arbitrary: m out idx)
  case Nil
  then show ?case by simp
next
  case (Cons row rows)
  show ?case
  proof (cases "xlsx_row w ss ip v row m")
    case (Inl e)
    with Cons.prems show ?thesis by (simp add: Let_def)
  next
    case (Inr m')
    from step [OF Cons.prems Inr] have "P m'" .
    from Cons.IH [OF this] Inr show ?thesis by (simp add: Let_def)
  qed
qed

lemma fst_XLSX_extract:
  "fst (XLSXCaptionParser_extract hh w f ip v) = fst (snd (xlsx_try hh w f ip v))"
  by (auto simp: XLSXCaptionParser_extract_def split: prod.splits flow.splits exn.splits)

lemma xlsx_extract_invariant:
  assumes nil: "P []"
    and step: "\<And>m k cap. P m \<Longrightarrow> P (setdefault_append k (''<start> '' @ strip cap @ '' <end>'') m)"
  shows "P (fst (XLSXCaptionParser_extract hh w f ip v))"
proof -
  have row: "\<And>ss row m m'. P m \<Longrightarrow> xlsx_row w ss ip v row m = Inr m' \<Longrightarrow> P m'"
    using step by (auto dest!: xlsx_row_cases)
  have loop: "\<And>ss tot idx rows out. P (fst (snd (xlsx_rows w ss ip v tot idx rows ([], out))))"
    by (rule xlsx_rows_invariant [where P = P]) (auto intro: row nil)
  show ?thesis
    unfolding fst_XLSX_extract xlsx_try_def
    by (auto simp: Let_def nil loop split: sum.splits option.splits)
qed

lemma csv_row_cases:
  assumes "csv_row w ip v row mc = Inr mc'"
  shows "mc' = mc \<or>
         (\<exists>name cap. mc' = (setdefault_append (csv_img_path ip name)
                              ('' <start> '' @ strip cap @ '' <end> '') (fst mc), Suc (snd mc)))"
  using assms by (auto simp: csv_row_def Let_def split: if_splits sum.splits)

lemma csv_loop_invariant:
  assumes step: "\<And>row mc mc'. P (fst mc) \<Longrightarrow> csv_row w ip v row mc = Inr mc' \<Longrightarrow> P (fst mc')"
  shows "P (fst mc) \<Longrightarrow> P (fst (fst (snd (csv_loop w ip v tot idx rows (mc, out)))))"
proof (induction rows arbitrary: mc out idx)
  case Nil
  then show ?case by simp
next
  case (Cons row rows)
  show ?case
  proof (cases "csv_row w ip v row mc")
    case (Inl e)
    with Cons.prems show ?thesis by (simp add: Let_def)
  next
    case (Inr mc')
    from step [OF Cons.prems Inr] have "P (fst mc')" .
    from Cons.IH [OF this] Inr show ?thesis by (simp add: Let_def)
  qed
qed

lemma fst_CSV_extract:
  "fst (CSVCaptionParser_extract w f ip v) = fst (snd (csv_try w f ip v))"
  by (auto simp: CSVCaptionParser_extract_def split: prod.splits flow.splits exn.splits)

lemma fst_csv_try:
  "fst (snd (csv_try w f ip v)) =
     (case csv_rows w f of
        Inl e \<Rightarrow> []
      | Inr rows \<Rightarrow>
          fst (fst (snd (csv_loop w ip v (length rows) 1 rows
                           (([], 0), [Parsing_csv (os_path_basename f) (length rows)])))))"
  by (auto simp: csv_try_def split: sum.splits prod.splits flow.splits)

lemma csv_extract_invariant:
  assumes nil: "P []"
    and step: "\<And>m k cap. P m \<Longrightarrow> P (setdefault_append k ('' <start> '' @ strip cap @ '' <end> '') m)"
  shows "P (fst (CSVCaptionParser_extract w f ip v))"
proof -
  have row: "\<And>row mc mc'. P (fst mc) \<Longrightarrow> csv_row w ip v row mc = Inr mc' \<Longrightarrow> P (fst mc')"
    using step by (auto dest!: csv_row_cases)
  have loop: "\<And>tot idx rows out. P (fst (fst (snd (csv_loop w ip v tot idx rows (([], 0), out)))))"
    by (rule csv_loop_invariant [where P = P]) (auto intro: row nil)
  show ?thesis
    unfolding fst_CSV_extract fst_csv_try
    by (auto simp: nil loop split: sum.splits)
qed

lemma json_item_cases:
  assumes "json_item render w f ip v item s = (fl, s')"
  shows "fst s' = fst s \<or>
         (\<exists>name. formatted_captions render (item_get item ''caption'') \<noteq> [] \<and>
            fst s' = dict_set (os_path_join ip (strip name))
                       (formatted_captions render (item_get item ''caption'')) (fst s))"
  using assms
  by (auto simp: json_item_def Let_def split: if_splits sum.splits json.splits)

lemma json_loop_invariant:
  assumes step: "\<And>item s fl s'. P (fst s) \<Longrightarrow> json_item render w f ip v item s = (fl, s') \<Longrightarrow> P (fst s')"
  shows "P (fst s) \<Longrightarrow> P (fst (snd (json_loop render w f ip v idx items s)))"
proof (induction items arbitrary: s idx)
  case Nil
  then show ?case by simp
next
  case (Cons item items)
  obtain m out where s: "s = (m, out)" by (cases s)
  let ?out = "if idx mod 1000 = 0 then out @ [Json_item_progress idx] else out"
  obtain fl s' where it: "json_item render w f ip v item (m, ?out) = (fl, s')"
    by (cases "json_item render w f ip v item (m, ?out)")
  from Cons.prems have "P (fst (m, ?out))" by (simp add: s)
  from step [OF this it] have P': "P (fst s')" .
  show ?case
  proof (cases fl)
    case Done
    from Cons.IH [OF P'] it Done show ?thesis by (simp add: s Let_def)
  next
    case (Raise e)
    with it P' show ?thesis by (simp add: s Let_def)
  qed
qed

lemma fst_JSON_extract:
  "fst (JSONCaptionParser_extract render w f ip v) = fst (snd (json_try render w f ip v))"
  by (auto simp: JSONCaptionParser_extract_def split: prod.splits flow.splits exn.splits)

lemma fst_json_try:
  "fst (snd (json_try render w f ip v)) =
     (case json_load w f of
        Inr (JList items) \<Rightarrow>
          fst (snd (json_loop render w f ip v 0 items ([], [Parsing_json (os_path_basename f)])))
      | _ \<Rightarrow> [])"
  by (auto simp: json_try_def Let_def split: sum.splits prod.splits flow.splits json.splits)

lemma json_extract_invariant:
  assumes nil: "P []"
    and step: "\<And>m k raw. formatted_captions render raw \<noteq> [] \<Longrightarrow> P m \<Longrightarrow>
                 P (dict_set k (formatted_captions render raw) m)"
  shows "P (fst (JSONCaptionParser_extract render w f ip v))"
proof -
  have item: "\<And>item s fl s'. P (fst s) \<Longrightarrow> json_item render w f ip v item s = (fl, s') \<Longrightarrow> P (fst s')"
    using step by (auto dest!: json_item_cases)
  have loop: "\<And>idx items out. P (fst (snd (json_loop render w f ip v idx items ([], out))))"
    by (rule json_loop_invariant [where P = P]) (auto intro: item nil)
  show ?thesis
    unfolding fst_JSON_extract fst_json_try
    by (auto simp: nil loop split: sum.splits json.splits)
qed

subsection \<open>The collector as a fold over the files\<close>

lemma wf_mapping_Nil: "wf_mapping []"
  by (simp add: wf_mapping_def)

lemma wf_mapping_dict_set: "cs \<noteq> [] \<Longrightarrow> wf_mapping d \<Longrightarrow> wf_mapping (dict_set k cs d)"
  using set_dict_set [of k cs d] by (auto simp: wf_mapping_def distinct_dict_set)

lemma wf_mapping_setdefault_append: "wf_mapping d \<Longrightarrow> wf_mapping (setdefault_append k c d)"
  by (simp add: setdefault_append_def wf_mapping_dict_set split: option.splits)

lemma wf_parser_extract: "wf_mapping (fst (parser_extract render w p fp d v))"
proof (cases p)
  case (Xlsx_parser hh)
  then show ?thesis
    by (simp add: parser_extract_def xlsx_extract_invariant wf_mapping_Nil
        wf_mapping_setdefault_append)
next
  case Csv_parser
  then show ?thesis
    by (simp add: parser_extract_def csv_extract_invariant wf_mapping_Nil
        wf_mapping_setdefault_append)
next
  case Json_parser
  then show ?thesis
    by (simp add: parser_extract_def json_extract_invariant wf_mapping_Nil wf_mapping_dict_set)
qed

lemma wf_per_file_mapping: "wf_mapping (per_file_mapping render w base v rf)"
  by (simp add: per_file_mapping_def wf_parser_extract wf_mapping_Nil split: route.splits)

lemma dict_update_Nil: "dict_update d [] = d"
  by (simp add: dict_update_def)

lemma fst_collect_file:
  "fst (collect_file render w base v root file s) =
     dict_update (fst s) (per_file_mapping render w base v (root, file))"
  by (simp add: collect_file_def per_file_mapping_def dict_update_Nil Let_def split: route.splits)

lemma fst_collect_files:
  "fst (collect_files render w base v root files s) =
     fold (\<lambda>rf m. dict_update m (per_file_mapping render w base v rf)) (map (Pair root) files) (fst s)"
  unfolding collect_files_def
  by (induction files arbitrary: s) (simp_all add: fst_collect_file)

lemma fst_collect_walk:
  "fst (collect_walk render w base v triples s) =
     fold (\<lambda>rf m. dict_update m (per_file_mapping render w base v rf))
       (concat (map (\<lambda>(root, dirs, files). map (Pair root) files) triples)) (fst s)"
proof (induction triples arbitrary: s)
  case Nil
  then show ?case by (simp add: collect_walk_def)
next
  case (Cons t ts)
  obtain root dirs files where t: "t = (root, dirs, files)" by (cases t)
  have "collect_walk render w base v (t # ts) s =
        collect_walk render w base v ts (collect_files render w base v root files s)"
    by (simp add: collect_walk_def t)
  then show ?case by (simp add: Cons.IH t fst_collect_files)
qed

lemma collect_all_as_fold:
  "collect_all_caption_data render w base v =
     fold (\<lambda>rf m. dict_update m (per_file_mapping render w base v rf)) (walk_files w base) []"
  by (simp add: collect_all_caption_data_def collect_run_def fst_collect_walk walk_files_def)

lemma fold_update_keeps:
  assumes "\<forall>rf \<in> set rfs. k \<notin> keys (per_file_mapping render w base v rf)"
  shows "dict_get (fold (\<lambda>rf m. dict_update m (per_file_mapping render w base v rf)) rfs m) k =
         dict_get m k"
  using assms
proof (induction rfs arbitrary: m)
  case Nil
  then show ?case by simp
next
  case (Cons rf rfs)
  from Cons.prems have "dict_get (per_file_mapping render w base v rf) k = None"
    by (simp add: dict_get_None_iff)
  moreover have "distinct (map fst (per_file_mapping render w base v rf))"
    using wf_per_file_mapping [of render w base v rf] by (simp add: wf_mapping_def)
  ultimately have "dict_get (dict_update m (per_file_mapping render w base v rf)) k = dict_get m k"
    by (simp add: dict_get_dict_update)
  with Cons show ?case by simp
qed

subsection \<open>Merging across files\<close>

text \<open>
  Claim C1.  When two files of the walk yield dictionaries that share a key, the file
  processed second being the last one of the walk that yields this key, the dictionary
  returned by \<open>collect_all_caption_data\<close> holds at the key the caption list of the
  second file: the list of the first file is replaced, and the result is not the two
  lists joined.
\<close>

theorem merge_law_last_file_wins:
  assumes walk: "walk_files w base = before @ rf1 # mid @ rf2 # after"
    and M1: "dict_get (per_file_mapping render w base v rf1) K = Some v1"
    and M2: "dict_get (per_file_mapping render w base v rf2) K = Some v2"
    and last: "\<forall>rf \<in> set after. K \<notin> keys (per_file_mapping render w base v rf)"
  shows "dict_get (collect_all_caption_data render w base v) K = Some v2 \<and>
         dict_get (collect_all_caption_data render w base v) K \<noteq> Some (v1 @ v2)"
proof -
  let ?step = "\<lambda>rf m. dict_update m (per_file_mapping render w base v rf)"
  let ?m = "fold ?step (before @ rf1 # mid) []"
  have d2: "distinct (map fst (per_file_mapping render w base v rf2))"
    using wf_per_file_mapping [of render w base v rf2] by (simp add: wf_mapping_def)
  have "collect_all_caption_data render w base v = fold ?step after (?step rf2 ?m)"
    by (simp add: collect_all_as_fold walk)
  then have "dict_get (collect_all_caption_data render w base v) K = dict_get (?step rf2 ?m) K"
    using fold_update_keeps [OF last] by simp
  also have "\<dots> = Some v2"
    using M2 d2 by (simp add: dict_get_dict_update)
  finally have res: "dict_get (collect_all_caption_data render w base v) K = Some v2" .
  have "(K, v1) \<in> set (per_file_mapping render w base v rf1)"
    using M1 by (rule dict_get_Some_mem)
  then have "v1 \<noteq> []"
    using wf_per_file_mapping [of render w base v rf1] by (auto simp: wf_mapping_def)
  with res show ?thesis by simp
qed

theorem merge_law_last_file_wins_witness:
  "walk_files example_world ''data'' =
     [] @ (''data'', ''captions_a.json'') # [] @ (''data'', ''captions_b.json'') #
       [(''data'', ''BanglaView_Dataset.xlsx''), (''data'', ''readme.txt''),
        (''data'', ''captioning.xlsx''), (''data'', ''ban-cap.csv'')] \<and>
   dict_get (per_file_mapping example_render example_world ''data'' False
               (''data'', ''captions_a.json'')) ''data/rxxch9vw59.2/images/a.jpg'' =
     Some [''<start>x '', ''<start>y ''] \<and>
   dict_get (per_file_mapping example_render example_world ''data'' False
               (''data'', ''captions_b.json'')) ''data/rxxch9vw59.2/images/a.jpg'' =
     Some [''<start>w ''] \<and>
   dict_get (collect_all_caption_data example_render example_world ''data'' False)
     ''data/rxxch9vw59.2/images/a.jpg'' = Some [''<start>w ''] \<and>
   dict_get (collect_all_caption_data example_render example_world ''data'' False)
     ''data/rxxch9vw59.2/images/a.jpg'' \<noteq> Some ([''<start>x '', ''<start>y ''] @ [''<start>w ''])"
proof -
  have h1: "walk_files example_world ''data'' =
     [] @ (''data'', ''captions_a.json'') # [] @ (''data'', ''captions_b.json'') #
       [(''data'', ''BanglaView_Dataset.xlsx''), (''data'', ''readme.txt''),
        (''data'', ''captioning.xlsx''), (''data'', ''ban-cap.csv'')]"
    by code_simp
  have h2: "dict_get (per_file_mapping example_render example_world ''data'' False
               (''data'', ''captions_a.json'')) ''data/rxxch9vw59.2/images/a.jpg'' =
     Some [''<start>x '', ''<start>y '']"
    by code_simp
  have h3: "dict_get (per_file_mapping example_render example_world ''data'' False
               (''data'', ''captions_b.json'')) ''data/rxxch9vw59.2/images/a.jpg'' =
     Some [''<start>w '']"
    by code_simp
  have h4: "\<forall>rf \<in> set [(''data'', ''BanglaView_Dataset.xlsx''), (''data'', ''readme.txt''),
        (''data'', ''captioning.xlsx''), (''data'', ''ban-cap.csv'')].
      ''data/rxxch9vw59.2/images/a.jpg'' \<notin>
        keys (per_file_mapping example_render example_world ''data'' False rf)"
    by code_simp
  from merge_law_last_file_wins [OF h1 h2 h3 h4] h1 h2 h3 show ?thesis by simp
qed

subsection \<open>The wrapper of each format\<close>

lemma formatted_captions_shape:
  "c \<in> set (formatted_captions render raw) \<Longrightarrow> \<exists>cap. c = ''<start>'' @ strip cap @ '' ''"
  by (auto simp: formatted_captions_def Let_def)

text \<open>
  Claim C2.  Every caption in a dictionary returned by the spreadsheet extractor is
  \<open><start> \<close>, a trimmed caption and \<open> <end>\<close>; by the delimited-text extractor the
  same between one more space on each side; by the structured-record extractor
  \<open><start>\<close>, a trimmed caption and one space, without \<open><end>\<close>.  No text is wrapped to
  the same string by two of the formats.
\<close>

theorem caption_wrappers:
  "(\<forall>(k, cs) \<in> set (fst (XLSXCaptionParser_extract hh w f ip v)).
      \<forall>c \<in> set cs. \<exists>cap. c = ''<start> '' @ strip cap @ '' <end>'') \<and>
   (\<forall>(k, cs) \<in> set (fst (CSVCaptionParser_extract w f ip v)).
      \<forall>c \<in> set cs. \<exists>cap. c = '' <start> '' @ strip cap @ '' <end> '') \<and>
   (\<forall>(k, cs) \<in> set (fst (JSONCaptionParser_extract render w f ip v)).
      \<forall>c \<in> set cs. \<exists>cap. c = ''<start>'' @ strip cap @ '' '') \<and>
   (\<forall>t. ''<start> '' @ t @ '' <end>'' \<noteq> '' <start> '' @ t @ '' <end> '' \<and>
        ''<start> '' @ t @ '' <end>'' \<noteq> ''<start>'' @ t @ '' '' \<and>
        '' <start> '' @ t @ '' <end> '' \<noteq> ''<start>'' @ t @ '' '')"
proof (intro conjI)
  show "\<forall>(k, cs) \<in> set (fst (XLSXCaptionParser_extract hh w f ip v)).
          \<forall>c \<in> set cs. \<exists>cap. c = ''<start> '' @ strip cap @ '' <end>''"
    by (rule xlsx_extract_invariant, simp, rule captions_invariant_setdefault_append) auto
  show "\<forall>(k, cs) \<in> set (fst (CSVCaptionParser_extract w f ip v)).
          \<forall>c \<in> set cs. \<exists>cap. c = '' <start> '' @ strip cap @ '' <end> ''"
    by (rule csv_extract_invariant, simp, rule captions_invariant_setdefault_append) auto
  show "\<forall>(k, cs) \<in> set (fst (JSONCaptionParser_extract render w f ip v)).
          \<forall>c \<in> set cs. \<exists>cap. c = ''<start>'' @ strip cap @ '' ''"
    by (rule json_extract_invariant, simp, rule captions_invariant_dict_set)
       (auto dest!: formatted_captions_shape)
  show "\<forall>t. ''<start> '' @ t @ '' <end>'' \<noteq> '' <start> '' @ t @ '' <end> '' \<and>
        ''<start> '' @ t @ '' <end>'' \<noteq> ''<start>'' @ t @ '' '' \<and>
        '' <start> '' @ t @ '' <end> '' \<noteq> ''<start>'' @ t @ '' ''"
  proof (intro allI conjI)
    fix t :: string
    show "''<start> '' @ t @ '' <end>'' \<noteq> '' <start> '' @ t @ '' <end> ''" by simp
    show "'' <start> '' @ t @ '' <end> '' \<noteq> ''<start>'' @ t @ '' ''" by simp
    have "last (''<start> '' @ t @ '' <end>'') \<noteq> last (''<start>'' @ t @ '' '')" by simp
    then show "''<start> '' @ t @ '' <end>'' \<noteq> ''<start>'' @ t @ '' ''" by metis
  qed
qed

theorem caption_wrappers_witness:
  "(''data/photo1.jpg'', [''<start> Hello <end>'', ''<start> World <end>'']) \<in>
     set (fst (XLSXCaptionParser_extract True example_world ''data/captioning.xlsx'' ''data'' False)) \<and>
   (\<exists>cap. ''<start> World <end>'' = ''<start> '' @ strip cap @ '' <end>'') \<and>
   (''data/img2.jpg'', ['' <start> good <end> '', '' <start> fine <end> '']) \<in>
     set (fst (CSVCaptionParser_extract example_world ''data/ban-cap.csv'' ''data'' False)) \<and>
   (\<exists>cap. '' <start> good <end> '' = '' <start> '' @ strip cap @ '' <end> '') \<and>
   (''data/a.jpg'', [''<start>x '', ''<start>y '']) \<in>
     set (fst (JSONCaptionParser_extract example_render example_world ''data/captions_a.json''
                 ''data'' False)) \<and>
   (\<exists>cap. ''<start>y '' = ''<start>'' @ strip cap @ '' '')"
proof -
  note w1 = caption_wrappers [where hh = True and w = example_world and ip = "''data''"
      and v = False and render = example_render and f = "''data/captioning.xlsx''"]
  note w2 = caption_wrappers [where hh = True and w = example_world and ip = "''data''"
      and v = False and render = example_render and f = "''data/ban-cap.csv''"]
  note w3 = caption_wrappers [where hh = True and w = example_world and ip = "''data''"
      and v = False and render = example_render and f = "''data/captions_a.json''"]
  have x: "(''data/photo1.jpg'', [''<start> Hello <end>'', ''<start> World <end>'']) \<in>
     set (fst (XLSXCaptionParser_extract True example_world ''data/captioning.xlsx'' ''data'' False))"
    by code_simp
  have c: "(''data/img2.jpg'', ['' <start> good <end> '', '' <start> fine <end> '']) \<in>
     set (fst (CSVCaptionParser_extract example_world ''data/ban-cap.csv'' ''data'' False))"
    by code_simp
  have j: "(''data/a.jpg'', [''<start>x '', ''<start>y '']) \<in>
     set (fst (JSONCaptionParser_extract example_render example_world ''data/captions_a.json''
                 ''data'' False))"
    by code_simp
  have wx: "\<forall>(k, cs) \<in> set (fst (XLSXCaptionParser_extract True example_world
              ''data/captioning.xlsx'' ''data'' False)).
             \<forall>c \<in> set cs. \<exists>cap. c = ''<start> '' @ strip cap @ '' <end>''"
    using w1 by (rule conjunct1)
  have wc: "\<forall>(k, cs) \<in> set (fst (CSVCaptionParser_extract example_world ''data/ban-cap.csv''
              ''data'' False)).
             \<forall>c \<in> set cs. \<exists>cap. c = '' <start> '' @ strip cap @ '' <end> ''"
    using w2 by (rule conjunct1 [OF conjunct2])
  have wj: "\<forall>(k, cs) \<in> set (fst (JSONCaptionParser_extract example_render example_world
              ''data/captions_a.json'' ''data'' False)).
             \<forall>c \<in> set cs. \<exists>cap. c = ''<start>'' @ strip cap @ '' ''"
    using w3 by (rule conjunct1 [OF conjunct2 [OF conjunct2]])
  have "\<forall>c \<in> set [''<start> Hello <end>'', ''<start> World <end>''].
          \<exists>cap. c = ''<start> '' @ strip cap @ '' <end>''"
    using bspec [OF wx x] by (simp only: prod.case)
  then have rx: "\<exists>cap. ''<start> World <end>'' = ''<start> '' @ strip cap @ '' <end>''"
    by (rule bspec) (simp only: list.set insert_iff simp_thms)
  have "\<forall>c \<in> set ['' <start> good <end> '', '' <start> fine <end> ''].
          \<exists>cap. c = '' <start> '' @ strip cap @ '' <end> ''"
    using bspec [OF wc c] by (simp only: prod.case)
  then have rc: "\<exists>cap. '' <start> good <end> '' = '' <start> '' @ strip cap @ '' <end> ''"
    by (rule bspec) (simp only: list.set insert_iff simp_thms)
  have "\<forall>c \<in> set [''<start>x '', ''<start>y ''].
          \<exists>cap. c = ''<start>'' @ strip cap @ '' ''"
    using bspec [OF wj j] by (simp only: prod.case)
  then have rj: "\<exists>cap. ''<start>y '' = ''<start>'' @ strip cap @ '' ''"
    by (rule bspec) (simp only: list.set insert_iff simp_thms)
  from x rx c rc j rj show ?thesis by (intro conjI)
qed

subsection \<open>Validation only removes keys\<close>

text \<open>
  The run with validation is simulated row by row by the run without: a row that stores a
  key in the first stores it in the second, and the first may stop at a row where
  \<open>Path.exists\<close> raises while the second goes on.
\<close>

lemma xlsx_row_keys_mono: "xlsx_row w ss ip v row m = Inr m' \<Longrightarrow> keys m \<subseteq> keys m'"
  by (auto dest!: xlsx_row_cases simp: keys_setdefault_append)

lemma xlsx_rows_keys_mono:
  "keys m \<subseteq> keys (fst (snd (xlsx_rows w ss ip v tot idx rows (m, out))))"
  by (rule xlsx_rows_invariant [where P = "\<lambda>m'. keys m \<subseteq> keys m'"])
     (auto dest: xlsx_row_keys_mono)

lemma xlsx_row_validate:
  assumes "xlsx_row w ss ip True row mT = Inr mT'" and "keys mT \<subseteq> keys mF"
  shows "\<exists>mF'. xlsx_row w ss ip False row mF = Inr mF' \<and> keys mT' \<subseteq> keys mF'"
  using assms
  by (auto simp: xlsx_row_def Let_def keys_setdefault_append split: if_splits sum.splits)

lemma xlsx_row_no_validate: "\<exists>m'. xlsx_row w ss ip False row m = Inr m'"
  by (simp add: xlsx_row_def Let_def)

lemma xlsx_rows_validate:
  "keys mT \<subseteq> keys mF \<Longrightarrow>
   keys (fst (snd (xlsx_rows w ss ip True tot idx rows (mT, oT)))) \<subseteq>
   keys (fst (snd (xlsx_rows w ss ip False tot' idx' rows (mF, oF))))"
proof (induction rows arbitrary: mT mF oT oF idx idx')
  case Nil
  then show ?case by simp
next
  case (Cons row rows)
  obtain mF' where F: "xlsx_row w ss ip False row mF = Inr mF'"
    using xlsx_row_no_validate by blast
  show ?case
  proof (cases "xlsx_row w ss ip True row mT")
    case (Inl e)
    have "keys mF \<subseteq> keys mF'" using F by (rule xlsx_row_keys_mono)
    moreover have "keys mF' \<subseteq>
        keys (fst (snd (xlsx_rows w ss ip False tot' (Suc idx') rows
          (mF', if idx' mod 500 = 0 \<or> idx' = tot' then oF @ [Row_progress idx' tot'] else oF))))"
      by (rule xlsx_rows_keys_mono)
    ultimately show ?thesis using Inl F Cons.prems by (auto simp: Let_def)
  next
    case (Inr mT')
    from xlsx_row_validate [OF Inr Cons.prems] F have k: "keys mT' \<subseteq> keys mF'" by simp
    from Cons.IH [OF k] Inr F show ?thesis by (simp add: Let_def)
  qed
qed

lemma xlsx_rows_validate_Nil:
  "x \<in> keys (fst (snd (xlsx_rows w ss ip True tot idx rows ([], oT)))) \<Longrightarrow>
   x \<in> keys (fst (snd (xlsx_rows w ss ip False tot' idx' rows ([], oF))))"
  using xlsx_rows_validate [of "[]" "[]" w ss ip tot idx rows oT tot' idx' oF] by auto

lemma xlsx_extract_validate:
  "keys (fst (XLSXCaptionParser_extract hh w f ip True)) \<subseteq>
   keys (fst (XLSXCaptionParser_extract hh w f ip False))"
  unfolding fst_XLSX_extract xlsx_try_def
  by (auto simp: Let_def split: sum.splits option.splits dest: xlsx_rows_validate_Nil)

lemma csv_row_keys_mono: "csv_row w ip v row mc = Inr mc' \<Longrightarrow> keys (fst mc) \<subseteq> keys (fst mc')"
  by (auto dest!: csv_row_cases simp: keys_setdefault_append)

lemma csv_loop_keys_mono:
  "keys (fst mc) \<subseteq> keys (fst (fst (snd (csv_loop w ip v tot idx rows (mc, out)))))"
  by (rule csv_loop_invariant [where P = "\<lambda>m'. keys (fst mc) \<subseteq> keys m'"])
     (auto dest: csv_row_keys_mono)

lemma csv_row_validate:
  assumes "csv_row w ip True row mcT = Inr mcT'" and "keys (fst mcT) \<subseteq> keys (fst mcF)"
  shows "\<exists>mcF'. csv_row w ip False row mcF = Inr mcF' \<and> keys (fst mcT') \<subseteq> keys (fst mcF')"
  using assms
  by (cases mcF; cases mcT)
     (auto simp: csv_row_def Let_def keys_setdefault_append split: if_splits sum.splits)

lemma csv_row_no_validate: "\<exists>mc'. csv_row w ip False row mc = Inr mc'"
  by (simp add: csv_row_def Let_def)

lemma csv_loop_validate:
  "keys (fst mcT) \<subseteq> keys (fst mcF) \<Longrightarrow>
   keys (fst (fst (snd (csv_loop w ip True tot idx rows (mcT, oT))))) \<subseteq>
   keys (fst (fst (snd (csv_loop w ip False tot' idx' rows (mcF, oF)))))"
proof (induction rows arbitrary: mcT mcF oT oF idx idx')
  case Nil
  then show ?case by simp
next
  case (Cons row rows)
  obtain mcF' where F: "csv_row w ip False row mcF = Inr mcF'"
    using csv_row_no_validate by blast
  show ?case
  proof (cases "csv_row w ip True row mcT")
    case (Inl e)
    have "keys (fst mcF) \<subseteq> keys (fst mcF')" using F by (rule csv_row_keys_mono)
    moreover have "keys (fst mcF') \<subseteq>
        keys (fst (fst (snd (csv_loop w ip False tot' (Suc idx') rows
          (mcF', if idx' mod 10000 = 0 \<or> idx' = tot' then oF @ [Row_progress idx' tot'] else oF)))))"
      by (rule csv_loop_keys_mono)
    ultimately show ?thesis using Inl F Cons.prems by (auto simp: Let_def)
  next
    case (Inr mcT')
    from csv_row_validate [OF Inr Cons.prems] F have k: "keys (fst mcT') \<subseteq> keys (fst mcF')" by simp
    from Cons.IH [OF k] Inr F show ?thesis by (simp add: Let_def)
  qed
qed

lemma csv_loop_validate_Nil:
  "x \<in> keys (fst (fst (snd (csv_loop w ip True tot idx rows (([], n), oT))))) \<Longrightarrow>
   x \<in> keys (fst (fst (snd (csv_loop w ip False tot' idx' rows (([], n'), oF)))))"
  using csv_loop_validate [of "([], n)" "([], n')" w ip tot idx rows oT tot' idx' oF] by auto

lemma csv_extract_validate:
  "keys (fst (CSVCaptionParser_extract w f ip True)) \<subseteq>
   keys (fst (CSVCaptionParser_extract w f ip False))"
  unfolding fst_CSV_extract fst_csv_try
  by (auto split: sum.splits dest: csv_loop_validate_Nil)

lemma json_item_keys_mono:
  "json_item render w f ip v item s = (fl, s') \<Longrightarrow> keys (fst s) \<subseteq> keys (fst s')"
  by (auto dest!: json_item_cases simp: keys_dict_set)

lemma json_loop_keys_mono:
  "keys (fst s) \<subseteq> keys (fst (snd (json_loop render w f ip v idx items s)))"
  by (rule json_loop_invariant [where P = "\<lambda>m'. keys (fst s) \<subseteq> keys m'"])
     (auto dest: json_item_keys_mono)

lemma json_item_Raise: "json_item render w f ip v item s = (Raise e, s') \<Longrightarrow> s' = s"
  by (auto simp: json_item_def Let_def split: if_splits sum.splits json.splits)

lemma json_item_validate:
  assumes "json_item render w f ip True item sT = (Done, sT')"
    and "keys (fst sT) \<subseteq> keys (fst sF)"
  shows "\<exists>sF'. json_item render w f ip False item sF = (Done, sF') \<and>
                keys (fst sT') \<subseteq> keys (fst sF')"
  using assms
  by (cases sF; cases sT)
     (auto simp: json_item_def Let_def keys_dict_set split: if_splits sum.splits json.splits)

lemma json_loop_validate:
  "keys (fst sT) \<subseteq> keys (fst sF) \<Longrightarrow>
   keys (fst (snd (json_loop render w f ip True idx items sT))) \<subseteq>
   keys (fst (snd (json_loop render w f ip False idx' items sF)))"
proof (induction items arbitrary: sT sF idx idx')
  case Nil
  then show ?case by simp
next
  case (Cons item items)
  obtain mT oT where sT: "sT = (mT, oT)" by (cases sT)
  obtain mF oF where sF: "sF = (mF, oF)" by (cases sF)
  let ?oT = "if idx mod 1000 = 0 then oT @ [Json_item_progress idx] else oT"
  let ?oF = "if idx' mod 1000 = 0 then oF @ [Json_item_progress idx'] else oF"
  obtain flT sT' where T: "json_item render w f ip True item (mT, ?oT) = (flT, sT')"
    by (cases "json_item render w f ip True item (mT, ?oT)")
  obtain flF sF' where F: "json_item render w f ip False item (mF, ?oF) = (flF, sF')"
    by (cases "json_item render w f ip False item (mF, ?oF)")
  have k0: "keys mT \<subseteq> keys mF" using Cons.prems by (simp add: sT sF)
  have kF: "keys mF \<subseteq> keys (fst sF')" using json_item_keys_mono [OF F] by simp
  have rest: "keys (fst sF') \<subseteq>
      keys (fst (snd (json_loop render w f ip False idx' (item # items) sF)))"
  proof (cases flF)
    case Done
    then show ?thesis using F json_loop_keys_mono [of sF' render w f ip False "Suc idx'" items]
      by (simp add: sF Let_def)
  next
    case (Raise e)
    then show ?thesis using F by (simp add: sF Let_def)
  qed
  show ?case
  proof (cases flT)
    case (Raise e)
    with T have "sT' = (mT, ?oT)" by (auto dest: json_item_Raise)
    with T Raise have "fst (snd (json_loop render w f ip True idx (item # items) sT)) = mT"
      by (simp add: sT Let_def)
    with k0 kF rest show ?thesis by auto
  next
    case Done
    from json_item_validate [of render w f ip item "(mT, ?oT)" sT' "(mF, ?oF)"] T Done k0 F
    have d: "flF = Done" and k: "keys (fst sT') \<subseteq> keys (fst sF')" by auto
    from Cons.IH [OF k, of "Suc idx" "Suc idx'"] T F Done d show ?thesis
      by (simp add: sT sF Let_def)
  qed
qed

lemma json_loop_validate_Nil:
  "x \<in> keys (fst (snd (json_loop render w f ip True idx items ([], oT)))) \<Longrightarrow>
   x \<in> keys (fst (snd (json_loop render w f ip False idx' items ([], oF))))"
  using json_loop_validate [of "([], oT)" "([], oF)" render w f ip idx items idx'] by auto

lemma json_extract_validate:
  "keys (fst (JSONCaptionParser_extract render w f ip True)) \<subseteq>
   keys (fst (JSONCaptionParser_extract render w f ip False))"
  unfolding fst_JSON_extract fst_json_try
  by (auto split: sum.splits json.splits dest: json_loop_validate_Nil)

text \<open>
  Claim C4.  For each of the three extractors, on the same source file and image root,
  every key of the dictionary returned with \<open>validate_images=True\<close> is a key of the
  dictionary returned with \<open>validate_images=False\<close>.
\<close>

theorem validation_monotone:
  "keys (fst (XLSXCaptionParser_extract has_header w source image_root True)) \<subseteq>
     keys (fst (XLSXCaptionParser_extract has_header w source image_root False)) \<and>
   keys (fst (CSVCaptionParser_extract w source image_root True)) \<subseteq>
     keys (fst (CSVCaptionParser_extract w source image_root False)) \<and>
   keys (fst (JSONCaptionParser_extract render w source image_root True)) \<subseteq>
     keys (fst (JSONCaptionParser_extract render w source image_root False))"
proof (intro conjI)
  show "keys (fst (XLSXCaptionParser_extract has_header w source image_root True)) \<subseteq>
     keys (fst (XLSXCaptionParser_extract has_header w source image_root False))"
    by (rule xlsx_extract_validate)
  show "keys (fst (CSVCaptionParser_extract w source image_root True)) \<subseteq>
     keys (fst (CSVCaptionParser_extract w source image_root False))"
    by (rule csv_extract_validate)
  show "keys (fst (JSONCaptionParser_extract render w source image_root True)) \<subseteq>
     keys (fst (JSONCaptionParser_extract render w source image_root False))"
    by (rule json_extract_validate)
qed

theorem validation_monotone_witness:
  "keys (fst (CSVCaptionParser_extract example_world ''data/ban-cap.csv'' ''data'' True)) \<subseteq>
     keys (fst (CSVCaptionParser_extract example_world ''data/ban-cap.csv'' ''data'' False)) \<and>
   ''data/img3.jpg'' \<in>
     keys (fst (CSVCaptionParser_extract example_world ''data/ban-cap.csv'' ''data'' False)) \<and>
   ''data/img3.jpg'' \<notin>
     keys (fst (CSVCaptionParser_extract example_world ''data/ban-cap.csv'' ''data'' True))"
proof -
  have a: "''data/img3.jpg'' \<in>
     keys (fst (CSVCaptionParser_extract example_world ''data/ban-cap.csv'' ''data'' False))"
    by code_simp
  have b: "''data/img3.jpg'' \<notin>
     keys (fst (CSVCaptionParser_extract example_world ''data/ban-cap.csv'' ''data'' True))"
    by code_simp
  from validation_monotone [where w = example_world and source = "''data/ban-cap.csv''"
      and image_root = "''data''"]
  have "keys (fst (CSVCaptionParser_extract example_world ''data/ban-cap.csv'' ''data'' True)) \<subseteq>
     keys (fst (CSVCaptionParser_extract example_world ''data/ban-cap.csv'' ''data'' False))"
    by (rule conjunct1 [OF conjunct2])
  with a b show ?thesis by (intro conjI)
qed

subsection \<open>Failures stay inside \<open>extract\<close>\<close>

text \<open>
  A loop that raises at a row leaves the dictionary as the rows before have built it.
\<close>

lemma xlsx_rows_raise_at:
  assumes "xlsx_rows w ss ip v tot idx pre (m, out) = (Done, (m1, out1))"
    and "xlsx_row w ss ip v row m1 = Inl e"
  shows "fst (xlsx_rows w ss ip v tot idx (pre @ row # post) (m, out)) = Raise e \<and>
         fst (snd (xlsx_rows w ss ip v tot idx (pre @ row # post) (m, out))) = m1"
  using assms
proof (induction pre arbitrary: m out idx)
  case Nil
  then show ?case by (simp add: Let_def)
next
  case (Cons r rs)
  show ?case
  proof (cases "xlsx_row w ss ip v r m")
    case (Inl e')
    with Cons.prems show ?thesis by (simp add: Let_def)
  next
    case (Inr m')
    with Cons.prems Cons.IH show ?thesis by (simp add: Let_def)
  qed
qed

lemma csv_loop_raise_at:
  assumes "csv_loop w ip v tot idx pre (mc, out) = (Done, (mc1, out1))"
    and "csv_row w ip v row mc1 = Inl e"
  shows "fst (csv_loop w ip v tot idx (pre @ row # post) (mc, out)) = Raise e \<and>
         fst (snd (csv_loop w ip v tot idx (pre @ row # post) (mc, out))) = mc1"
  using assms
proof (induction pre arbitrary: mc out idx)
  case Nil
  then show ?case by (simp add: Let_def)
next
  case (Cons r rs)
  show ?case
  proof (cases "csv_row w ip v r mc")
    case (Inl e')
    with Cons.prems show ?thesis by (simp add: Let_def)
  next
    case (Inr mc')
    with Cons.prems Cons.IH show ?thesis by (simp add: Let_def)
  qed
qed

lemma json_item_flow:
  "fst (json_item render w f ip v item (m, out)) = fst (json_item render w f ip v item (m', out'))"
  by (simp add: json_item_def Let_def split: json.splits sum.splits)

lemma json_loop_raise_at:
  assumes "json_loop render w f ip v idx pre s = (Done, (m1, out1))"
    and "fst (json_item render w f ip v item (m1, [])) = Raise e"
  shows "fst (json_loop render w f ip v idx (pre @ item # post) s) = Raise e \<and>
         fst (snd (json_loop render w f ip v idx (pre @ item # post) s)) = m1"
  using assms
proof (induction pre arbitrary: s idx)
  case Nil
  obtain out where s: "s = (m1, out)" using Nil.prems(1) by (cases s) simp
  let ?out = "if idx mod 1000 = 0 then out @ [Json_item_progress idx] else out"
  obtain fl s' where it: "json_item render w f ip v item (m1, ?out) = (fl, s')"
    by (cases "json_item render w f ip v item (m1, ?out)")
  have "fl = Raise e"
    using json_item_flow [of render w f ip v item m1 ?out m1 "[]"] it Nil.prems(2) by simp
  moreover from this it have "s' = (m1, ?out)" by (auto dest: json_item_Raise)
  ultimately show ?case using it by (simp add: s Let_def)
next
  case (Cons r rs)
  obtain m out where s: "s = (m, out)" by (cases s)
  let ?out = "if idx mod 1000 = 0 then out @ [Json_item_progress idx] else out"
  obtain fl s' where it: "json_item render w f ip v r (m, ?out) = (fl, s')"
    by (cases "json_item render w f ip v r (m, ?out)")
  show ?case
  proof (cases fl)
    case Done
    with it Cons.prems(1) have "json_loop render w f ip v (Suc idx) rs s' = (Done, (m1, out1))"
      by (simp add: s Let_def)
    from Cons.IH [OF this Cons.prems(2)] it Done show ?thesis by (simp add: s Let_def)
  next
    case (Raise e')
    with it Cons.prems(1) show ?thesis by (simp add: s Let_def)
  qed
qed

lemma xlsx_open_fails: "zipfile w f = Inl e \<Longrightarrow> fst (XLSXCaptionParser_extract hh w f ip v) = []"
  by (simp add: fst_XLSX_extract xlsx_try_def)

lemma xlsx_strings_fail:
  "zipfile w f = Inr z \<Longrightarrow> load_shared_strings z = Inl e \<Longrightarrow>
   fst (XLSXCaptionParser_extract hh w f ip v) = []"
  by (simp add: fst_XLSX_extract xlsx_try_def)

lemma xlsx_sheet_missing:
  "zipfile w f = Inr z \<Longrightarrow> z sheet_file = None \<Longrightarrow>
   fst (XLSXCaptionParser_extract hh w f ip v) = []"
  by (simp add: fst_XLSX_extract xlsx_try_def split: sum.splits)

lemma xlsx_sheet_fails:
  "zipfile w f = Inr z \<Longrightarrow> z sheet_file = Some (Inl e) \<Longrightarrow>
   fst (XLSXCaptionParser_extract hh w f ip v) = []"
  by (simp add: fst_XLSX_extract xlsx_try_def split: sum.splits)

lemma xlsx_row_fails:
  assumes "zipfile w f = Inr z" and "load_shared_strings z = Inr ss"
    and "z sheet_file = Some (Inr tree)" and "data_rows hh tree = pre @ row # post"
    and "xlsx_rows w ss ip v (length (data_rows hh tree)) 1 pre
           ([], [Parsing_xlsx (os_path_basename f) (length (data_rows hh tree))]) =
         (Done, (m1, out1))"
    and "xlsx_row w ss ip v row m1 = Inl e"
  shows "fst (XLSXCaptionParser_extract hh w f ip v) = m1"
proof -
  from xlsx_rows_raise_at [OF assms(5) assms(6), of post]
  have "fst (snd (xlsx_rows w ss ip v (length (data_rows hh tree)) 1 (data_rows hh tree)
           ([], [Parsing_xlsx (os_path_basename f) (length (data_rows hh tree))]))) = m1"
    by (simp only: assms(4))
  with assms(1-3) show ?thesis
    by (simp add: fst_XLSX_extract xlsx_try_def Let_def)
qed

lemma csv_open_fails: "csv_rows w f = Inl e \<Longrightarrow> fst (CSVCaptionParser_extract w f ip v) = []"
  by (simp add: fst_CSV_extract fst_csv_try)

lemma csv_row_fails:
  assumes "csv_rows w f = Inr (pre @ row # post)"
    and "csv_loop w ip v (length (pre @ row # post)) 1 pre
           (([], 0), [Parsing_csv (os_path_basename f) (length (pre @ row # post))]) =
         (Done, ((m1, n1), out1))"
    and "csv_row w ip v row (m1, n1) = Inl e"
  shows "fst (CSVCaptionParser_extract w f ip v) = m1"
  using csv_loop_raise_at [OF assms(2) assms(3), of post] assms(1)
  by (simp add: fst_CSV_extract fst_csv_try)

lemma json_load_fails:
  "json_load w f = Inl e \<Longrightarrow> fst (JSONCaptionParser_extract render w f ip v) = []"
  by (simp add: fst_JSON_extract fst_json_try)

lemma json_root_not_list:
  "json_load w f = Inr root \<Longrightarrow> \<forall>items. root \<noteq> JList items \<Longrightarrow>
   fst (JSONCaptionParser_extract render w f ip v) = []"
  by (simp add: fst_JSON_extract fst_json_try split: json.splits)

lemma json_item_fails:
  assumes "json_load w f = Inr (JList (pre @ item # post))"
    and "json_loop render w f ip v 0 pre ([], [Parsing_json (os_path_basename f)]) =
         (Done, (m1, out1))"
    and "fst (json_item render w f ip v item (m1, [])) = Raise e"
  shows "fst (JSONCaptionParser_extract render w f ip v) = m1"
  using json_loop_raise_at [OF assms(2) assms(3), of post] assms(1)
  by (simp add: fst_JSON_extract fst_json_try)

text \<open>
  Claim C3.  \<open>extract\<close> returns a dictionary in every case, since both handlers fall
  through to \<open>return caption_mapping\<close>.  For the spreadsheet extractor it is empty when the
  file cannot be opened as a zip archive, when the shared strings or the worksheet cannot
  be parsed and when the worksheet is missing; for the delimited-text extractor when the
  file cannot be opened or read; for the structured-record extractor when the file cannot
  be opened or decoded and when its root is not a list.  When the loop of an extractor
  raises at a row or record, the dictionary returned is the one built from the rows or
  records before it.
\<close>

theorem extract_error_containment:
  "(zipfile w f = Inl e \<longrightarrow> fst (XLSXCaptionParser_extract hh w f ip v) = []) \<and>
   (zipfile w f = Inr z \<and> load_shared_strings z = Inl e \<longrightarrow>
      fst (XLSXCaptionParser_extract hh w f ip v) = []) \<and>
   (zipfile w f = Inr z \<and> z sheet_file = None \<longrightarrow>
      fst (XLSXCaptionParser_extract hh w f ip v) = []) \<and>
   (zipfile w f = Inr z \<and> z sheet_file = Some (Inl e) \<longrightarrow>
      fst (XLSXCaptionParser_extract hh w f ip v) = []) \<and>
   (zipfile w f = Inr z \<and> load_shared_strings z = Inr ss \<and>
    z sheet_file = Some (Inr tree) \<and> data_rows hh tree = xpre @ xrow # xpost \<and>
    xlsx_rows w ss ip v (length (data_rows hh tree)) 1 xpre
      ([], [Parsing_xlsx (os_path_basename f) (length (data_rows hh tree))]) =
      (Done, (xm, xout)) \<and>
    xlsx_row w ss ip v xrow xm = Inl e \<longrightarrow>
      fst (XLSXCaptionParser_extract hh w f ip v) = xm) \<and>
   (csv_rows w f = Inl e \<longrightarrow> fst (CSVCaptionParser_extract w f ip v) = []) \<and>
   (csv_rows w f = Inr (cpre @ crow # cpost) \<and>
    csv_loop w ip v (length (cpre @ crow # cpost)) 1 cpre
      (([], 0), [Parsing_csv (os_path_basename f) (length (cpre @ crow # cpost))]) =
      (Done, ((cm, cn), cout)) \<and>
    csv_row w ip v crow (cm, cn) = Inl e \<longrightarrow>
      fst (CSVCaptionParser_extract w f ip v) = cm) \<and>
   (json_load w f = Inl e \<longrightarrow> fst (JSONCaptionParser_extract render w f ip v) = []) \<and>
   (json_load w f = Inr root \<and> (\<forall>items. root \<noteq> JList items) \<longrightarrow>
      fst (JSONCaptionParser_extract render w f ip v) = []) \<and>
   (json_load w f = Inr (JList (jpre @ jitem # jpost)) \<and>
    json_loop render w f ip v 0 jpre ([], [Parsing_json (os_path_basename f)]) =
      (Done, (jm, jout)) \<and>
    fst (json_item render w f ip v jitem (jm, [])) = Raise e \<longrightarrow>
      fst (JSONCaptionParser_extract render w f ip v) = jm)"
  apply (intro conjI impI)
           apply (erule xlsx_open_fails)
          apply (elim conjE, erule (1) xlsx_strings_fail)
         apply (elim conjE, erule (1) xlsx_sheet_missing)
        apply (elim conjE, erule (1) xlsx_sheet_fails)
       apply (elim conjE, erule (5) xlsx_row_fails)
      apply (erule csv_open_fails)
     apply (elim conjE, erule (2) csv_row_fails)
    apply (erule json_load_fails)
   apply (elim conjE, erule (1) json_root_not_list)
  apply (elim conjE, erule (2) json_item_fails)
  done

theorem extract_error_containment_witness:
  "fst (XLSXCaptionParser_extract True example_world ''data/captioning_old.xlsx'' ''data'' True) = [] \<and>
   fst (XLSXCaptionParser_extract True example_world ''data/captioning_bad_strings.xlsx'' ''data'' True) = [] \<and>
   fst (XLSXCaptionParser_extract True example_world ''data/captioning_empty.xlsx'' ''data'' True) = [] \<and>
   fst (XLSXCaptionParser_extract True example_world ''data/captioning_bad.xlsx'' ''data'' True) = [] \<and>
   xlsx_row example_world [''name'', ''caption'', ''photo1.jpg#1'', '' World ''] ''data'' True
     (data_rows True example_sheet ! 3)
     [(''data/photo1.jpg'', [''<start> Hello <end>'', ''<start> World <end>''])] =
     Inl (OtherException ''PermissionError'') \<and>
   fst (XLSXCaptionParser_extract True example_world ''data/captioning.xlsx'' ''data'' True) =
     [(''data/photo1.jpg'', [''<start> Hello <end>'', ''<start> World <end>''])] \<and>
   fst (CSVCaptionParser_extract example_world ''data/missing.csv'' ''data'' True) = [] \<and>
   csv_row example_world ''data'' True (example_csv ! 2)
     ([(''data/img2.jpg'', ['' <start> good <end> '', '' <start> fine <end> ''])], 2) =
     Inl (OtherException ''PermissionError'') \<and>
   fst (CSVCaptionParser_extract example_world ''data/ban-cap.csv'' ''data'' True) =
     [(''data/img2.jpg'', ['' <start> good <end> '', '' <start> fine <end> ''])] \<and>
   fst (JSONCaptionParser_extract example_render example_world ''data/broken.json'' ''data'' False) = [] \<and>
   fst (JSONCaptionParser_extract example_render example_world ''data/captions_c.json'' ''data'' False) = [] \<and>
   fst (json_item example_render example_world ''data/captions_b.json'' ''data'' False
          (JDict [(''filename'', JNum ''7''), (''caption'', JStr ''v'')])
          ([(''data/a.jpg'', [''<start>w ''])], [])) = Raise AttributeError \<and>
   fst (JSONCaptionParser_extract example_render example_world ''data/captions_b.json'' ''data'' False) =
     [(''data/a.jpg'', [''<start>w ''])]"
proof -
  note I = extract_error_containment [where w = example_world and hh = True and ip = "''data''"
      and render = example_render]
  have r1: "fst (XLSXCaptionParser_extract True example_world ''data/captioning_old.xlsx'' ''data'' True) = []"
  proof -
    have "zipfile example_world ''data/captioning_old.xlsx'' = Inl BadZipFile"
      by (simp add: example_world_def)
    then show ?thesis by (rule I [THEN conjunct1, THEN mp])
  qed
  have r2: "fst (XLSXCaptionParser_extract True example_world ''data/captioning_bad_strings.xlsx'' ''data'' True) = []"
  proof -
    have a: "zipfile example_world ''data/captioning_bad_strings.xlsx'' = Inr example_bad_archive"
      by (simp add: example_world_def)
    have b: "load_shared_strings example_bad_archive = Inl (OtherException ''ParseError'')"
      by code_simp
    from conjI [OF a b] show ?thesis by (rule I [THEN conjunct2, THEN conjunct1, THEN mp])
  qed
  have r3: "fst (XLSXCaptionParser_extract True example_world ''data/captioning_empty.xlsx'' ''data'' True) = []"
  proof -
    have a: "zipfile example_world ''data/captioning_empty.xlsx'' = Inr Map.empty"
      by (simp add: example_world_def)
    have b: "Map.empty sheet_file = (None :: (exn + element) option)" by simp
    from conjI [OF a b] show ?thesis
      by (rule I [THEN conjunct2, THEN conjunct2, THEN conjunct1, THEN mp])
  qed
  have r4: "fst (XLSXCaptionParser_extract True example_world ''data/captioning_bad.xlsx'' ''data'' True) = []"
  proof -
    have a: "zipfile example_world ''data/captioning_bad.xlsx'' =
        Inr [sheet_file \<mapsto> Inl (OtherException ''ParseError'')]"
      by (simp add: example_world_def)
    have b: "[sheet_file \<mapsto> Inl (OtherException ''ParseError'') :: exn + element] sheet_file =
        Some (Inl (OtherException ''ParseError''))" by simp
    from conjI [OF a b] show ?thesis
      by (rule I [THEN conjunct2, THEN conjunct2, THEN conjunct2, THEN conjunct1, THEN mp])
  qed
  have e5: "xlsx_row example_world [''name'', ''caption'', ''photo1.jpg#1'', '' World ''] ''data'' True
     (data_rows True example_sheet ! 3)
     [(''data/photo1.jpg'', [''<start> Hello <end>'', ''<start> World <end>''])] =
     Inl (OtherException ''PermissionError'')"
    by code_simp
  have r5: "fst (XLSXCaptionParser_extract True example_world ''data/captioning.xlsx'' ''data'' True) =
     [(''data/photo1.jpg'', [''<start> Hello <end>'', ''<start> World <end>''])]"
  proof -
    have a: "zipfile example_world ''data/captioning.xlsx'' = Inr example_archive"
      by (simp add: example_world_def)
    have b: "load_shared_strings example_archive =
        Inr [''name'', ''caption'', ''photo1.jpg#1'', '' World '']"
      by code_simp
    have c: "example_archive sheet_file = Some (Inr example_sheet)"
      by (simp add: example_archive_def sheet_file_def shared_strings_file_def)
    have d: "data_rows True example_sheet =
        take 3 (data_rows True example_sheet) @ (data_rows True example_sheet ! 3) # []"
      by code_simp
    have l: "xlsx_rows example_world [''name'', ''caption'', ''photo1.jpg#1'', '' World ''] ''data''
        True (length (data_rows True example_sheet)) 1 (take 3 (data_rows True example_sheet))
        ([], [Parsing_xlsx (os_path_basename ''data/captioning.xlsx'')
                (length (data_rows True example_sheet))]) =
        (Done, ([(''data/photo1.jpg'', [''<start> Hello <end>'', ''<start> World <end>''])],
                [Parsing_xlsx ''captioning.xlsx'' 4]))"
      by code_simp
    from conjI [OF a conjI [OF b conjI [OF c conjI [OF d conjI [OF l e5]]]]] show ?thesis
      by (rule I [THEN conjunct2, THEN conjunct2, THEN conjunct2, THEN conjunct2, THEN conjunct1,
            THEN mp])
  qed
  have r6: "fst (CSVCaptionParser_extract example_world ''data/missing.csv'' ''data'' True) = []"
  proof -
    have "csv_rows example_world ''data/missing.csv'' = Inl FileNotFoundError"
      by (simp add: example_world_def)
    then show ?thesis
      by (rule I [THEN conjunct2, THEN conjunct2, THEN conjunct2, THEN conjunct2, THEN conjunct2,
            THEN conjunct1, THEN mp])
  qed
  have e7: "csv_row example_world ''data'' True (example_csv ! 2)
     ([(''data/img2.jpg'', ['' <start> good <end> '', '' <start> fine <end> ''])], 2) =
     Inl (OtherException ''PermissionError'')"
    by code_simp
  have r7: "fst (CSVCaptionParser_extract example_world ''data/ban-cap.csv'' ''data'' True) =
     [(''data/img2.jpg'', ['' <start> good <end> '', '' <start> fine <end> ''])]"
  proof -
    have a: "csv_rows example_world ''data/ban-cap.csv'' =
        Inr (take 2 example_csv @ (example_csv ! 2) # drop 3 example_csv)"
      by code_simp
    have l: "csv_loop example_world ''data'' True
        (length (take 2 example_csv @ (example_csv ! 2) # drop 3 example_csv)) 1
        (take 2 example_csv)
        (([], 0), [Parsing_csv (os_path_basename ''data/ban-cap.csv'')
                     (length (take 2 example_csv @ (example_csv ! 2) # drop 3 example_csv))]) =
        (Done, (([(''data/img2.jpg'', ['' <start> good <end> '', '' <start> fine <end> ''])], 2),
                [Parsing_csv ''ban-cap.csv'' 4]))"
      by code_simp
    from conjI [OF a conjI [OF l e7]] show ?thesis
      by (rule I [THEN conjunct2, THEN conjunct2, THEN conjunct2, THEN conjunct2, THEN conjunct2,
            THEN conjunct2, THEN conjunct1, THEN mp])
  qed
  have r8: "fst (JSONCaptionParser_extract example_render example_world ''data/broken.json'' ''data'' False) = []"
  proof -
    have "json_load example_world ''data/broken.json'' = Inl JSONDecodeError"
      by (simp add: example_world_def)
    then show ?thesis
      by (rule I [THEN conjunct2, THEN conjunct2, THEN conjunct2, THEN conjunct2, THEN conjunct2,
            THEN conjunct2, THEN conjunct2, THEN conjunct1, THEN mp])
  qed
  have r9: "fst (JSONCaptionParser_extract example_render example_world ''data/captions_c.json'' ''data'' False) = []"
  proof -
    have a: "json_load example_world ''data/captions_c.json'' =
        Inr (JDict [(''filename'', JStr ''a.jpg''), (''caption'', JStr ''x'')])"
      by (simp add: example_world_def)
    have b: "\<forall>items. JDict [(''filename'', JStr ''a.jpg''), (''caption'', JStr ''x'')] \<noteq> JList items"
      by simp
    from conjI [OF a b] show ?thesis
      by (rule I [THEN conjunct2, THEN conjunct2, THEN conjunct2, THEN conjunct2, THEN conjunct2,
            THEN conjunct2, THEN conjunct2, THEN conjunct2, THEN conjunct1, THEN mp])
  qed
  have e10: "fst (json_item example_render example_world ''data/captions_b.json'' ''data'' False
          (JDict [(''filename'', JNum ''7''), (''caption'', JStr ''v'')])
          ([(''data/a.jpg'', [''<start>w ''])], [])) = Raise AttributeError"
    by code_simp
  have r10: "fst (JSONCaptionParser_extract example_render example_world ''data/captions_b.json'' ''data'' False) =
     [(''data/a.jpg'', [''<start>w ''])]"
  proof -
    have a: "json_load example_world ''data/captions_b.json'' =
        Inr (JList ([JDict [(''filename'', JStr ''a.jpg''), (''caption'', JStr ''w'')],
                     JDict [(''filename'', JStr ''only.jpg'')]] @
                    JDict [(''filename'', JNum ''7''), (''caption'', JStr ''v'')] #
                    [JDict [(''filename'', JStr ''late.jpg''), (''caption'', JStr ''u'')]]))"
      by (simp add: example_world_def example_json_b_def)
    have l: "json_loop example_render example_world ''data/captions_b.json'' ''data'' False 0
        [JDict [(''filename'', JStr ''a.jpg''), (''caption'', JStr ''w'')],
         JDict [(''filename'', JStr ''only.jpg'')]]
        ([], [Parsing_json (os_path_basename ''data/captions_b.json'')]) =
        (Done, ([(''data/a.jpg'', [''<start>w ''])],
                [Parsing_json ''captions_b.json'', Json_item_progress 0,
                 Warn_malformed_item ''data/captions_b.json''
                   (JDict [(''filename'', JStr ''only.jpg'')])]))"
      by code_simp
    from conjI [OF a conjI [OF l e10]] show ?thesis
      by (rule I [THEN conjunct2, THEN conjunct2, THEN conjunct2, THEN conjunct2, THEN conjunct2,
            THEN conjunct2, THEN conjunct2, THEN conjunct2, THEN conjunct2, THEN mp])
  qed
  from r1 r2 r3 r4 e5 r5 r6 e7 r7 r8 r9 e10 r10 show ?thesis by (intro conjI)
qed

subsection \<open>Shared strings\<close>

text \<open>
  On the list \<open>extract\<close> has loaded, \<open>get_cell_value\<close> reads a cell of type \<open>s\<close> as
  the entry at the index \<open>int\<close> gives, or as \<open>None\<close>; a row whose first value is
  \<open>None\<close> leaves the dictionary as it is.
\<close>

lemma get_cell_value_shared:
  assumes "map_of (attrib cell) ''t'' = Some ''s''"
    and "find (\<lambda>v. endswith (tag v) ''v'') (children cell) = Some ve"
    and "etext ve = Some txt" and "txt \<noteq> []"
  shows "get_cell_value ss cell =
           (case py_int txt of
              None \<Rightarrow> None
            | Some i \<Rightarrow> if 0 \<le> i \<and> i < int (length ss) then Some (ss ! nat i) else None)"
  using assms by (simp add: get_cell_value_def truthy_def Let_def)

lemma xlsx_row_no_name:
  "get_cell_value ss (filter (\<lambda>el. endswith (tag el) ''c'') (children row) ! 0) = None \<Longrightarrow>
   xlsx_row w ss ip v row m = Inr m"
  by (simp add: xlsx_row_def truthy_def Let_def)

text \<open>
  Claim C5 says that a first cell of type \<open>s\<close> resolves to the entry of the file's
  shared-string table at the cell's index.  The code does not do so on a file whose table
  has an entry without text.  The table of \<open>example_shift_strings\<close> is the empty string,
  \<open>a.jpg\<close>, \<open>b.jpg\<close>; line 101 drops the \<open>t\<close> element without text, so the list
  loaded is \<open>a.jpg\<close>, \<open>b.jpg\<close> and every later index is off by one: the row with index
  1 is stored under \<open>b.jpg\<close> and not under \<open>a.jpg\<close>, and the row with index 2, the
  entry \<open>b.jpg\<close> of the table, finds no entry and is lost.
\<close>

theorem shared_string_index_shift:
  "zipfile example_world ''data/captioning_shift.xlsx'' = Inr example_shift_archive \<and>
   load_shared_strings example_shift_archive = Inr [''a.jpg'', ''b.jpg''] \<and>
   data_rows False example_shift_sheet =
     [Element (ns @ ''row'') [] None [example_cell (Some ''s'') ''1'', example_cell None ''Hello''],
      Element (ns @ ''row'') [] None [example_cell (Some ''s'') ''2'', example_cell None ''World'']] \<and>
   get_cell_value [''a.jpg'', ''b.jpg''] (example_cell (Some ''s'') ''1'') = Some ''b.jpg'' \<and>
   get_cell_value [''a.jpg'', ''b.jpg''] (example_cell (Some ''s'') ''2'') = None \<and>
   XLSXCaptionParser_extract False example_world ''data/captioning_shift.xlsx'' ''data'' False =
     ([(''data/b.jpg'', [''<start> Hello <end>''])],
      [Parsing_xlsx ''captioning_shift.xlsx'' 2, Row_progress 2 2])"
proof (intro conjI)
  show "zipfile example_world ''data/captioning_shift.xlsx'' = Inr example_shift_archive"
    by (simp add: example_world_def)
  show "load_shared_strings example_shift_archive = Inr [''a.jpg'', ''b.jpg'']"
    by code_simp
  show "data_rows False example_shift_sheet =
     [Element (ns @ ''row'') [] None [example_cell (Some ''s'') ''1'', example_cell None ''Hello''],
      Element (ns @ ''row'') [] None [example_cell (Some ''s'') ''2'', example_cell None ''World'']]"
    by code_simp
  show "get_cell_value [''a.jpg'', ''b.jpg''] (example_cell (Some ''s'') ''1'') = Some ''b.jpg''"
    by code_simp
  show "get_cell_value [''a.jpg'', ''b.jpg''] (example_cell (Some ''s'') ''2'') = None"
    by code_simp
  show "XLSXCaptionParser_extract False example_world ''data/captioning_shift.xlsx'' ''data'' False =
     ([(''data/b.jpg'', [''<start> Hello <end>''])],
      [Parsing_xlsx ''captioning_shift.xlsx'' 2, Row_progress 2 2])"
    by code_simp
qed

subsection \<open>Records the structured-record extractor skips\<close>

lemma malformed_iff:
  "malformed item \<longleftrightarrow>
     (\<forall>d. item = JDict d \<longrightarrow> map_of d ''filename'' = None \<or> map_of d ''caption'' = None)"
  by (cases item) (simp_all add: malformed_def)

lemma malformed_warnings_append:
  "malformed_warnings (xs @ ys) = malformed_warnings xs @ malformed_warnings ys"
  by (induction xs rule: malformed_warnings.induct) simp_all

lemma json_item_malformed:
  "malformed item \<Longrightarrow>
   json_item render w f ip v item (m, out) = (Done, (m, out @ [Warn_malformed_item f item]))"
  by (simp add: json_item_def)

lemma json_item_well_formed:
  "\<not> malformed item \<Longrightarrow> snd (snd (json_item render w f ip v item (m, out))) = out"
  by (simp add: json_item_def Let_def split: json.splits sum.splits)

lemma json_item_skip_iff:
  "json_item render w f ip v item (m, out) = (Done, (m, out @ [Warn_malformed_item f item])) \<longleftrightarrow>
   malformed item"
proof
  assume eq: "json_item render w f ip v item (m, out) = (Done, (m, out @ [Warn_malformed_item f item]))"
  show "malformed item"
  proof (rule ccontr)
    assume "\<not> malformed item"
    from json_item_well_formed [OF this, of render w f ip v m out] eq show False by simp
  qed
next
  assume "malformed item"
  then show "json_item render w f ip v item (m, out) = (Done, (m, out @ [Warn_malformed_item f item]))"
    by (rule json_item_malformed)
qed

lemma json_item_warnings:
  "malformed_warnings (snd (snd (json_item render w f ip v item (m, out)))) =
   malformed_warnings out @ (if malformed item then [item] else [])"
proof (cases "malformed item")
  case True
  then show ?thesis by (simp add: json_item_malformed malformed_warnings_append)
next
  case False
  then show ?thesis by (simp add: json_item_well_formed)
qed

lemma json_loop_warnings:
  "json_loop render w f ip v idx items (m, out) = (Done, (m', out')) \<Longrightarrow>
   malformed_warnings out' = malformed_warnings out @ filter malformed items"
proof (induction items arbitrary: m out idx)
  case Nil
  then show ?case by simp
next
  case (Cons item items)
  let ?out = "if idx mod 1000 = 0 then out @ [Json_item_progress idx] else out"
  obtain fl m1 out1 where it: "json_item render w f ip v item (m, ?out) = (fl, (m1, out1))"
    by (cases "json_item render w f ip v item (m, ?out)") auto
  from Cons.prems it have fl: "fl = Done"
    by (cases fl) (simp_all add: Let_def)
  with Cons.prems it have "json_loop render w f ip v (Suc idx) items (m1, out1) = (Done, (m', out'))"
    by (simp add: Let_def)
  from Cons.IH [OF this] have "malformed_warnings out' = malformed_warnings out1 @ filter malformed items" .
  moreover have "malformed_warnings out1 =
      malformed_warnings ?out @ (if malformed item then [item] else [])"
    using json_item_warnings [of render w f ip v item m ?out] it by simp
  moreover have "malformed_warnings ?out = malformed_warnings out"
    by (simp add: malformed_warnings_append)
  ultimately show ?case by simp
qed

text \<open>
  Claim C6, as stated, fails: a record that has the name field and lacks the caption field
  is skipped with the warning, although it is record-shaped and has one of the two fields.
\<close>

theorem skip_rule_counterexample:
  "map_of [(''filename'', JStr ''only.jpg'')] ''filename'' = Some (JStr ''only.jpg'') \<and>
   json_item example_render example_world ''data/captions_b.json'' ''data'' False
     (JDict [(''filename'', JStr ''only.jpg'')]) ([], []) =
     (Done, ([], [Warn_malformed_item ''data/captions_b.json''
                    (JDict [(''filename'', JStr ''only.jpg'')])]))"
  by code_simp

text \<open>
  Claim C6, amended.  The structured-record extractor skips a record with the warning, the
  dictionary unchanged, exactly when the record is not a dictionary or lacks the name field
  or lacks the caption field; a dictionary with both fields is never skipped this way.
  When the loop over a file's records ends normally, the records named by its warnings
  are exactly those records of the file, in order.
\<close>

theorem skip_rule:
  "(json_item render w f ip v item (m, out) = (Done, (m, out @ [Warn_malformed_item f item])) \<longleftrightarrow>
      (\<forall>d. item = JDict d \<longrightarrow> map_of d ''filename'' = None \<or> map_of d ''caption'' = None)) \<and>
   (json_loop render w f ip v idx items (m, out) = (Done, (m', out')) \<longrightarrow>
      malformed_warnings out' =
        malformed_warnings out @
        filter (\<lambda>item. \<forall>d. item = JDict d \<longrightarrow>
                  map_of d ''filename'' = None \<or> map_of d ''caption'' = None) items)"
proof (intro conjI impI)
  show "json_item render w f ip v item (m, out) = (Done, (m, out @ [Warn_malformed_item f item])) \<longleftrightarrow>
      (\<forall>d. item = JDict d \<longrightarrow> map_of d ''filename'' = None \<or> map_of d ''caption'' = None)"
    unfolding json_item_skip_iff by (rule malformed_iff)
next
  assume "json_loop render w f ip v idx items (m, out) = (Done, (m', out'))"
  from json_loop_warnings [OF this] show "malformed_warnings out' =
        malformed_warnings out @
        filter (\<lambda>item. \<forall>d. item = JDict d \<longrightarrow>
                  map_of d ''filename'' = None \<or> map_of d ''caption'' = None) items"
    by (simp add: malformed_iff [abs_def])
qed

theorem skip_rule_witness:
  "json_item example_render example_world ''data/captions_b.json'' ''data'' False
     (JDict [(''caption'', JStr ''w'')]) ([], []) =
     (Done, ([], [] @ [Warn_malformed_item ''data/captions_b.json''
                         (JDict [(''caption'', JStr ''w'')])])) \<and>
   json_item example_render example_world ''data/captions_b.json'' ''data'' False
     (JDict [(''filename'', JStr ''a.jpg''), (''caption'', JStr ''w'')]) ([], []) \<noteq>
     (Done, ([], [] @ [Warn_malformed_item ''data/captions_b.json''
                         (JDict [(''filename'', JStr ''a.jpg''), (''caption'', JStr ''w'')])])) \<and>
   malformed_warnings
     [Parsing_json ''captions_b.json'', Json_item_progress 0,
      Warn_malformed_item ''data/captions_b.json'' (JDict [(''filename'', JStr ''only.jpg'')])] =
     [JDict [(''filename'', JStr ''only.jpg'')]]"
proof -
  note S = skip_rule [where render = example_render and w = example_world
      and f = "''data/captions_b.json''" and ip = "''data''" and v = False and m = "[]"]
  have a: "\<forall>d. JDict [(''caption'', JStr ''w'')] = JDict d \<longrightarrow>
             map_of d ''filename'' = None \<or> map_of d ''caption'' = None"
    by simp
  have b: "\<not> (\<forall>d. JDict [(''filename'', JStr ''a.jpg''), (''caption'', JStr ''w'')] = JDict d \<longrightarrow>
             map_of d ''filename'' = None \<or> map_of d ''caption'' = None)"
    by simp
  have r1: "json_item example_render example_world ''data/captions_b.json'' ''data'' False
     (JDict [(''caption'', JStr ''w'')]) ([], []) =
     (Done, ([], [] @ [Warn_malformed_item ''data/captions_b.json''
                         (JDict [(''caption'', JStr ''w'')])]))"
    using S [where out = "[]" and item = "JDict [(''caption'', JStr ''w'')]", THEN conjunct1] a
    by (rule iffD2)
  have r2: "json_item example_render example_world ''data/captions_b.json'' ''data'' False
     (JDict [(''filename'', JStr ''a.jpg''), (''caption'', JStr ''w'')]) ([], []) \<noteq>
     (Done, ([], [] @ [Warn_malformed_item ''data/captions_b.json''
                         (JDict [(''filename'', JStr ''a.jpg''), (''caption'', JStr ''w'')])]))"
    using S [where out = "[]"
        and item = "JDict [(''filename'', JStr ''a.jpg''), (''caption'', JStr ''w'')]",
        THEN conjunct1] b
    by (simp only: simp_thms)
  have l: "json_loop example_render example_world ''data/captions_b.json'' ''data'' False 0
        [JDict [(''filename'', JStr ''a.jpg''), (''caption'', JStr ''w'')],
         JDict [(''filename'', JStr ''only.jpg'')]]
        ([], [Parsing_json ''captions_b.json'']) =
        (Done, ([(''data/a.jpg'', [''<start>w ''])],
                [Parsing_json ''captions_b.json'', Json_item_progress 0,
                 Warn_malformed_item ''data/captions_b.json''
                   (JDict [(''filename'', JStr ''only.jpg'')])]))"
    by code_simp
  have r3: "malformed_warnings
     [Parsing_json ''captions_b.json'', Json_item_progress 0,
      Warn_malformed_item ''data/captions_b.json'' (JDict [(''filename'', JStr ''only.jpg'')])] =
     [JDict [(''filename'', JStr ''only.jpg'')]]"
    using S [where out = "[Parsing_json ''captions_b.json'']", THEN conjunct2, THEN mp, OF l]
    by simp
  from r1 r2 r3 show ?thesis by (intro conjI)
qed

subsection \<open>Accumulation within one file\<close>

lemma extends_refl: "extends m m"
  by (auto simp: extends_def)

lemma extends_trans: "extends m m' \<Longrightarrow> extends m' m'' \<Longrightarrow> extends m m''"
  unfolding extends_def by (metis append.assoc)

lemma extends_setdefault_append: "extends m (setdefault_append k c m)"
  by (auto simp: extends_def dict_get_setdefault_append)

lemma xlsx_row_extends: "xlsx_row w ss ip v row m = Inr m' \<Longrightarrow> extends m m'"
  by (auto dest!: xlsx_row_cases simp: extends_refl extends_setdefault_append)

lemma xlsx_rows_extends: "extends m (fst (snd (xlsx_rows w ss ip v tot idx rows (m, out))))"
  by (rule xlsx_rows_invariant [where P = "extends m"])
     (auto intro: extends_refl extends_trans dest: xlsx_row_extends)

lemma csv_row_extends: "csv_row w ip v row mc = Inr mc' \<Longrightarrow> extends (fst mc) (fst mc')"
  by (auto dest!: csv_row_cases simp: extends_refl extends_setdefault_append)

lemma csv_loop_extends:
  "extends (fst mc) (fst (fst (snd (csv_loop w ip v tot idx rows (mc, out)))))"
  by (rule csv_loop_invariant [where P = "extends (fst mc)"])
     (auto intro: extends_refl extends_trans dest: csv_row_extends)

lemma json_item_kept:
  assumes "item = JDict d" and "map_of d ''filename'' = Some (JStr name)"
    and "map_of d ''caption'' = Some raw"
    and "validate \<longrightarrow> stat w (os_path_join ip (strip name)) = Present"
    and "formatted_captions render raw \<noteq> []"
  shows "json_item render w f ip validate item (m, out) =
           (Done, (dict_set (os_path_join ip (strip name)) (formatted_captions render raw) m, out))"
  using assms
  by (auto simp: json_item_def malformed_def item_get_def Path_exists_def Let_def)

lemma xlsx_row_kept:
  assumes "cells = filter (\<lambda>el. endswith (tag el) ''c'') (children row)"
    and "2 \<le> length cells"
    and "get_cell_value ss (cells ! 0) = Some name" and "name \<noteq> []"
    and "get_cell_value ss (cells ! 1) = Some cap" and "cap \<noteq> []"
    and "v \<longrightarrow> stat w (xlsx_img_path ip name) = Present"
  shows "xlsx_row w ss ip v row m =
           Inr (setdefault_append (xlsx_img_path ip name)
                  (''<start> '' @ strip cap @ '' <end>'') m)"
  using assms by (auto simp: xlsx_row_def truthy_def Path_exists_def Let_def)

lemma csv_row_kept:
  assumes "row_get row ''caption_id'' = Some name" and "name \<noteq> []"
    and "row_get row ''bengali_caption'' = Some cap" and "cap \<noteq> []"
    and "v \<longrightarrow> stat w (csv_img_path ip name) = Present"
  shows "csv_row w ip v row (m, n) =
           Inr (setdefault_append (csv_img_path ip name)
                  ('' <start> '' @ strip cap @ '' <end> '') m, Suc n)"
  using assms by (auto simp: csv_row_def truthy_def Path_exists_def Let_def)

lemma xlsx_rows_append:
  "xlsx_rows w ss ip v tot idx pre (m, out) = (Done, (m1, out1)) \<Longrightarrow>
   xlsx_rows w ss ip v tot idx (pre @ rest) (m, out) =
     xlsx_rows w ss ip v tot (idx + length pre) rest (m1, out1)"
proof (induction pre arbitrary: m out idx)
  case Nil
  then show ?case by simp
next
  case (Cons r rs)
  show ?case
  proof (cases "xlsx_row w ss ip v r m")
    case (Inl e)
    with Cons.prems show ?thesis by (simp add: Let_def)
  next
    case (Inr m')
    with Cons.prems Cons.IH show ?thesis by (simp add: Let_def)
  qed
qed

lemma csv_loop_append:
  "csv_loop w ip v tot idx pre (mc, out) = (Done, (mc1, out1)) \<Longrightarrow>
   csv_loop w ip v tot idx (pre @ rest) (mc, out) =
     csv_loop w ip v tot (idx + length pre) rest (mc1, out1)"
proof (induction pre arbitrary: mc out idx)
  case Nil
  then show ?case by simp
next
  case (Cons r rs)
  show ?case
  proof (cases "csv_row w ip v r mc")
    case (Inl e)
    with Cons.prems show ?thesis by (simp add: Let_def)
  next
    case (Inr mc')
    with Cons.prems Cons.IH show ?thesis by (simp add: Let_def)
  qed
qed

lemma xlsx_rows_keeps_row:
  assumes pre: "xlsx_rows w ss ip v tot idx pre (m0, out0) = (Done, (m, out))"
    and row: "xlsx_row w ss ip v row m = Inr (setdefault_append p c m)"
  shows "\<exists>more. dict_get (fst (snd (xlsx_rows w ss ip v tot idx (pre @ row # post) (m0, out0)))) p =
           Some ((case dict_get m p of None \<Rightarrow> [] | Some cs \<Rightarrow> cs) @ [c] @ more)"
proof -
  let ?old = "case dict_get m p of None \<Rightarrow> [] | Some cs \<Rightarrow> cs"
  let ?out = "if (idx + length pre) mod 500 = 0 \<or> idx + length pre = tot
              then out @ [Row_progress (idx + length pre) tot] else out"
  have "xlsx_rows w ss ip v tot idx (pre @ row # post) (m0, out0) =
        xlsx_rows w ss ip v tot (Suc (idx + length pre)) post (setdefault_append p c m, ?out)"
    using xlsx_rows_append [OF pre, of "row # post"] row by (simp add: Let_def)
  then have eq: "fst (snd (xlsx_rows w ss ip v tot idx (pre @ row # post) (m0, out0))) =
      fst (snd (xlsx_rows w ss ip v tot (Suc (idx + length pre)) post
                  (setdefault_append p c m, ?out)))"
    by (rule arg_cong)
  have d: "dict_get (setdefault_append p c m) p = Some (?old @ [c])"
    by (simp add: dict_get_setdefault_append)
  have "extends (setdefault_append p c m)
      (fst (snd (xlsx_rows w ss ip v tot (Suc (idx + length pre)) post
                  (setdefault_append p c m, ?out))))"
    by (rule xlsx_rows_extends)
  with d obtain more where
    "dict_get (fst (snd (xlsx_rows w ss ip v tot (Suc (idx + length pre)) post
                  (setdefault_append p c m, ?out)))) p = Some ((?old @ [c]) @ more)"
    unfolding extends_def by blast
  then show ?thesis unfolding eq by (intro exI [of _ more]) simp
qed

lemma csv_loop_keeps_row:
  assumes pre: "csv_loop w ip v tot idx pre (mc0, out0) = (Done, ((m, n), out))"
    and row: "csv_row w ip v row (m, n) = Inr (setdefault_append p c m, Suc n)"
  shows "\<exists>more. dict_get (fst (fst (snd (csv_loop w ip v tot idx (pre @ row # post) (mc0, out0))))) p =
           Some ((case dict_get m p of None \<Rightarrow> [] | Some cs \<Rightarrow> cs) @ [c] @ more)"
proof -
  let ?old = "case dict_get m p of None \<Rightarrow> [] | Some cs \<Rightarrow> cs"
  let ?out = "if (idx + length pre) mod 10000 = 0 \<or> idx + length pre = tot
              then out @ [Row_progress (idx + length pre) tot] else out"
  have "csv_loop w ip v tot idx (pre @ row # post) (mc0, out0) =
        csv_loop w ip v tot (Suc (idx + length pre)) post ((setdefault_append p c m, Suc n), ?out)"
    using csv_loop_append [OF pre, of "row # post"] row by (simp add: Let_def)
  then have eq: "fst (fst (snd (csv_loop w ip v tot idx (pre @ row # post) (mc0, out0)))) =
      fst (fst (snd (csv_loop w ip v tot (Suc (idx + length pre)) post
                       ((setdefault_append p c m, Suc n), ?out))))"
    by (rule arg_cong)
  have d: "dict_get (setdefault_append p c m) p = Some (?old @ [c])"
    by (simp add: dict_get_setdefault_append)
  have "extends (setdefault_append p c m)
      (fst (fst (snd (csv_loop w ip v tot (Suc (idx + length pre)) post
                       ((setdefault_append p c m, Suc n), ?out)))))"
    using csv_loop_extends [of "(setdefault_append p c m, Suc n)" w ip v tot
        "Suc (idx + length pre)" post ?out]
    by (simp only: fst_conv)
  with d obtain more where
    "dict_get (fst (fst (snd (csv_loop w ip v tot (Suc (idx + length pre)) post
                       ((setdefault_append p c m, Suc n), ?out))))) p = Some ((?old @ [c]) @ more)"
    unfolding extends_def by blast
  then show ?thesis unfolding eq by (intro exI [of _ more]) simp
qed

text \<open>
  Claim C7.  A row the spreadsheet extractor or the delimited-text extractor keeps puts its
  formatted caption at the end of the captions its key holds (a new key holds this caption
  alone) and touches no other key; when the loop has reached the row, the captions of the
  key at the end of the loop begin with those captions and the new one; and however the
  loop ends, the captions a key had before begin the captions it has after.  The
  structured-record extractor, on a record it keeps, assigns the record's formatted
  captions to the key, whatever the key held from an earlier record, and touches no other
  key.
\<close>

theorem within_file_accumulation:
  "(cells = filter (\<lambda>el. endswith (tag el) ''c'') (children row) \<and> 2 \<le> length cells \<and>
    get_cell_value ss (cells ! 0) = Some name \<and> name \<noteq> [] \<and>
    get_cell_value ss (cells ! 1) = Some cap \<and> cap \<noteq> [] \<and>
    (v \<longrightarrow> stat w (xlsx_img_path ip name) = Present) \<longrightarrow>
      (\<exists>m'. xlsx_row w ss ip v row m = Inr m' \<and>
         dict_get m' (xlsx_img_path ip name) =
           Some ((case dict_get m (xlsx_img_path ip name) of None \<Rightarrow> [] | Some cs \<Rightarrow> cs) @
                 [''<start> '' @ strip cap @ '' <end>'']) \<and>
         (\<forall>k. k \<noteq> xlsx_img_path ip name \<longrightarrow> dict_get m' k = dict_get m k)) \<and>
      (xlsx_rows w ss ip v tot idx pre (m0, out0) = (Done, (m, out)) \<longrightarrow>
         (\<exists>more. dict_get (fst (snd (xlsx_rows w ss ip v tot idx (pre @ row # post) (m0, out0))))
                   (xlsx_img_path ip name) =
            Some ((case dict_get m (xlsx_img_path ip name) of None \<Rightarrow> [] | Some cs \<Rightarrow> cs) @
                  [''<start> '' @ strip cap @ '' <end>''] @ more)))) \<and>
   (dict_get m k = Some cs \<longrightarrow>
      (\<exists>more. dict_get (fst (snd (xlsx_rows w ss ip v tot idx rows (m, out)))) k =
         Some (cs @ more))) \<and>
   (row_get crow ''caption_id'' = Some cname \<and> cname \<noteq> [] \<and>
    row_get crow ''bengali_caption'' = Some ccap \<and> ccap \<noteq> [] \<and>
    (v \<longrightarrow> stat w (csv_img_path ip cname) = Present) \<longrightarrow>
      (\<exists>m'. csv_row w ip v crow (m, n) = Inr (m', Suc n) \<and>
         dict_get m' (csv_img_path ip cname) =
           Some ((case dict_get m (csv_img_path ip cname) of None \<Rightarrow> [] | Some cs \<Rightarrow> cs) @
                 ['' <start> '' @ strip ccap @ '' <end> '']) \<and>
         (\<forall>k. k \<noteq> csv_img_path ip cname \<longrightarrow> dict_get m' k = dict_get m k)) \<and>
      (csv_loop w ip v tot idx cpre ((m0, n0), out0) = (Done, ((m, n), out)) \<longrightarrow>
         (\<exists>more. dict_get
                   (fst (fst (snd (csv_loop w ip v tot idx (cpre @ crow # cpost) ((m0, n0), out0)))))
                   (csv_img_path ip cname) =
            Some ((case dict_get m (csv_img_path ip cname) of None \<Rightarrow> [] | Some cs \<Rightarrow> cs) @
                  ['' <start> '' @ strip ccap @ '' <end> ''] @ more)))) \<and>
   (dict_get m k = Some cs \<longrightarrow>
      (\<exists>more. dict_get (fst (fst (snd (csv_loop w ip v tot idx crows ((m, n), out))))) k =
         Some (cs @ more))) \<and>
   (item = JDict d \<and> map_of d ''filename'' = Some (JStr jname) \<and>
    map_of d ''caption'' = Some raw \<and>
    (v \<longrightarrow> stat w (os_path_join ip (strip jname)) = Present) \<and>
    formatted_captions render raw \<noteq> [] \<longrightarrow>
      (\<exists>m'. json_item render w f ip v item (m, out) = (Done, (m', out)) \<and>
         dict_get m' (os_path_join ip (strip jname)) = Some (formatted_captions render raw) \<and>
         (\<forall>k. k \<noteq> os_path_join ip (strip jname) \<longrightarrow> dict_get m' k = dict_get m k)))"
proof (intro conjI impI)
  assume a: "cells = filter (\<lambda>el. endswith (tag el) ''c'') (children row) \<and> 2 \<le> length cells \<and>
    get_cell_value ss (cells ! 0) = Some name \<and> name \<noteq> [] \<and>
    get_cell_value ss (cells ! 1) = Some cap \<and> cap \<noteq> [] \<and>
    (v \<longrightarrow> stat w (xlsx_img_path ip name) = Present)"
  then have r: "xlsx_row w ss ip v row m =
      Inr (setdefault_append (xlsx_img_path ip name) (''<start> '' @ strip cap @ '' <end>'') m)"
    by (elim conjE) (rule xlsx_row_kept, assumption+)
  then show "\<exists>m'. xlsx_row w ss ip v row m = Inr m' \<and>
         dict_get m' (xlsx_img_path ip name) =
           Some ((case dict_get m (xlsx_img_path ip name) of None \<Rightarrow> [] | Some cs \<Rightarrow> cs) @
                 [''<start> '' @ strip cap @ '' <end>'']) \<and>
         (\<forall>k. k \<noteq> xlsx_img_path ip name \<longrightarrow> dict_get m' k = dict_get m k)"
    by (simp add: dict_get_setdefault_append)
  assume "xlsx_rows w ss ip v tot idx pre (m0, out0) = (Done, (m, out))"
  from xlsx_rows_keeps_row [OF this r]
  show "\<exists>more. dict_get (fst (snd (xlsx_rows w ss ip v tot idx (pre @ row # post) (m0, out0))))
                   (xlsx_img_path ip name) =
            Some ((case dict_get m (xlsx_img_path ip name) of None \<Rightarrow> [] | Some cs \<Rightarrow> cs) @
                  [''<start> '' @ strip cap @ '' <end>''] @ more)" .
next
  assume "dict_get m k = Some cs"
  then show "\<exists>more. dict_get (fst (snd (xlsx_rows w ss ip v tot idx rows (m, out)))) k =
         Some (cs @ more)"
    using xlsx_rows_extends [of m w ss ip v tot idx rows out] by (simp add: extends_def)
next
  assume a: "row_get crow ''caption_id'' = Some cname \<and> cname \<noteq> [] \<and>
    row_get crow ''bengali_caption'' = Some ccap \<and> ccap \<noteq> [] \<and>
    (v \<longrightarrow> stat w (csv_img_path ip cname) = Present)"
  then have r: "csv_row w ip v crow (m, n) =
      Inr (setdefault_append (csv_img_path ip cname) ('' <start> '' @ strip ccap @ '' <end> '') m,
           Suc n)"
    by (elim conjE) (rule csv_row_kept, assumption+)
  then show "\<exists>m'. csv_row w ip v crow (m, n) = Inr (m', Suc n) \<and>
         dict_get m' (csv_img_path ip cname) =
           Some ((case dict_get m (csv_img_path ip cname) of None \<Rightarrow> [] | Some cs \<Rightarrow> cs) @
                 ['' <start> '' @ strip ccap @ '' <end> '']) \<and>
         (\<forall>k. k \<noteq> csv_img_path ip cname \<longrightarrow> dict_get m' k = dict_get m k)"
    by (simp add: dict_get_setdefault_append)
  assume "csv_loop w ip v tot idx cpre ((m0, n0), out0) = (Done, ((m, n), out))"
  from csv_loop_keeps_row [OF this r]
  show "\<exists>more. dict_get
                   (fst (fst (snd (csv_loop w ip v tot idx (cpre @ crow # cpost) ((m0, n0), out0)))))
                   (csv_img_path ip cname) =
            Some ((case dict_get m (csv_img_path ip cname) of None \<Rightarrow> [] | Some cs \<Rightarrow> cs) @
                  ['' <start> '' @ strip ccap @ '' <end> ''] @ more)" .
next
  assume "dict_get m k = Some cs"
  then show "\<exists>more. dict_get (fst (fst (snd (csv_loop w ip v tot idx crows ((m, n), out))))) k =
         Some (cs @ more)"
    using csv_loop_extends [of "(m, n)" w ip v tot idx crows out] by (simp add: extends_def)
next
  assume "item = JDict d \<and> map_of d ''filename'' = Some (JStr jname) \<and>
    map_of d ''caption'' = Some raw \<and>
    (v \<longrightarrow> stat w (os_path_join ip (strip jname)) = Present) \<and>
    formatted_captions render raw \<noteq> []"
  then have "json_item render w f ip v item (m, out) =
      (Done, (dict_set (os_path_join ip (strip jname)) (formatted_captions render raw) m, out))"
    by (elim conjE) (rule json_item_kept, assumption+)
  then show "\<exists>m'. json_item render w f ip v item (m, out) = (Done, (m', out)) \<and>
         dict_get m' (os_path_join ip (strip jname)) = Some (formatted_captions render raw) \<and>
         (\<forall>k. k \<noteq> os_path_join ip (strip jname) \<longrightarrow> dict_get m' k = dict_get m k)"
    by (simp add: dict_get_dict_set)
qed

theorem within_file_accumulation_witness:
  "(\<exists>m'. xlsx_row example_world [''name'', ''caption'', ''photo1.jpg#1'', '' World ''] ''data'' False
            (data_rows True example_sheet ! 2)
            [(''data/photo1.jpg'', [''earlier'', ''<start> Hello <end>''])] = Inr m' \<and>
          dict_get m' ''data/photo1.jpg'' =
            Some ([''earlier'', ''<start> Hello <end>''] @ [''<start> World <end>''])) \<and>
   (\<exists>more. dict_get
             (fst (snd (xlsx_rows example_world [''name'', ''caption'', ''photo1.jpg#1'', '' World '']
                          ''data'' False 4 1
                          (take 2 (data_rows True example_sheet) @
                             (data_rows True example_sheet ! 2) # drop 3 (data_rows True example_sheet))
                          ([(''data/photo1.jpg'', [''earlier''])], []))))
             ''data/photo1.jpg'' =
           Some ([''earlier'', ''<start> Hello <end>''] @ [''<start> World <end>''] @ more)) \<and>
   (\<exists>m'. csv_row example_world ''data'' False (example_csv ! 1)
            ([(''data/img2.jpg'', [''earlier'', '' <start> good <end> ''])], 1) = Inr (m', Suc 1) \<and>
          dict_get m' ''data/img2.jpg'' =
            Some ([''earlier'', '' <start> good <end> ''] @ ['' <start> fine <end> ''])) \<and>
   (\<exists>more. dict_get
             (fst (fst (snd (csv_loop example_world ''data'' False 4 1
                               (take 1 example_csv @ (example_csv ! 1) # drop 2 example_csv)
                               (([(''data/img2.jpg'', [''earlier''])], 0), [])))))
             ''data/img2.jpg'' =
           Some ([''earlier'', '' <start> good <end> ''] @ ['' <start> fine <end> ''] @ more)) \<and>
   (\<exists>m'. json_item example_render example_world ''data/captions_b.json'' ''data'' False
            (JDict [(''filename'', JStr ''a.jpg''), (''caption'', JStr ''w'')])
            ([(''data/a.jpg'', [''<start>x '', ''<start>y ''])], []) = (Done, (m', [])) \<and>
          dict_get m' ''data/a.jpg'' = Some [''<start>w ''])"
proof -
  let ?ss = "[''name'', ''caption'', ''photo1.jpg#1'', '' World '']"
  let ?row = "data_rows True example_sheet ! 2"
  let ?cells = "filter (\<lambda>el. endswith (tag el) ''c'') (children ?row)"
  let ?m = "[(''data/photo1.jpg'', [''earlier'', ''<start> Hello <end>''])]"
  have xh: "?cells = ?cells \<and> 2 \<le> length ?cells \<and>
      get_cell_value ?ss (?cells ! 0) = Some ''photo1.jpg#2'' \<and> ''photo1.jpg#2'' \<noteq> [] \<and>
      get_cell_value ?ss (?cells ! 1) = Some '' World '' \<and> '' World '' \<noteq> [] \<and>
      (False \<longrightarrow> stat example_world (xlsx_img_path ''data'' ''photo1.jpg#2'') = Present)"
    by code_simp
  have xp: "xlsx_img_path ''data'' ''photo1.jpg#2'' = ''data/photo1.jpg''" by code_simp
  have xo: "(case dict_get ?m ''data/photo1.jpg'' of None \<Rightarrow> [] | Some cs \<Rightarrow> cs) =
      [''earlier'', ''<start> Hello <end>'']"
    by code_simp
  have xc: "''<start> '' @ strip '' World '' @ '' <end>'' = ''<start> World <end>''" by code_simp
  have xl: "xlsx_rows example_world ?ss ''data'' False 4 1 (take 2 (data_rows True example_sheet))
      ([(''data/photo1.jpg'', [''earlier''])], []) = (Done, (?m, []))"
    by code_simp
  note X = within_file_accumulation [where w = example_world and ss = ?ss and ip = "''data''"
      and v = False and row = ?row and cells = ?cells and name = "''photo1.jpg#2''"
      and cap = "'' World ''" and m = ?m and out = "[]" and tot = 4 and idx = 1
      and pre = "take 2 (data_rows True example_sheet)"
      and post = "drop 3 (data_rows True example_sheet)"
      and ?m0.0 = "[(''data/photo1.jpg'', [''earlier''])]" and ?out0.0 = "[]",
      THEN conjunct1, THEN mp, OF xh, unfolded xp xo xc]
  have r1: "\<exists>m'. xlsx_row example_world ?ss ''data'' False ?row ?m = Inr m' \<and>
      dict_get m' ''data/photo1.jpg'' =
        Some ([''earlier'', ''<start> Hello <end>''] @ [''<start> World <end>''])"
    using X [THEN conjunct1] by (elim exE conjE) (intro exI conjI, assumption+)
  have r2: "\<exists>more. dict_get
             (fst (snd (xlsx_rows example_world ?ss ''data'' False 4 1
                          (take 2 (data_rows True example_sheet) @
                             ?row # drop 3 (data_rows True example_sheet))
                          ([(''data/photo1.jpg'', [''earlier''])], []))))
             ''data/photo1.jpg'' =
           Some ([''earlier'', ''<start> Hello <end>''] @ [''<start> World <end>''] @ more)"
    using X [THEN conjunct2, THEN mp, OF xl] .
  let ?cm = "[(''data/img2.jpg'', [''earlier'', '' <start> good <end> ''])]"
  have ch: "row_get (example_csv ! 1) ''caption_id'' = Some ''img2.jpg#1'' \<and> ''img2.jpg#1'' \<noteq> [] \<and>
      row_get (example_csv ! 1) ''bengali_caption'' = Some ''fine'' \<and> ''fine'' \<noteq> [] \<and>
      (False \<longrightarrow> stat example_world (csv_img_path ''data'' ''img2.jpg#1'') = Present)"
    by code_simp
  have cp: "csv_img_path ''data'' ''img2.jpg#1'' = ''data/img2.jpg''" by code_simp
  have co: "(case dict_get ?cm ''data/img2.jpg'' of None \<Rightarrow> [] | Some cs \<Rightarrow> cs) =
      [''earlier'', '' <start> good <end> '']"
    by code_simp
  have cc: "'' <start> '' @ strip ''fine'' @ '' <end> '' = '' <start> fine <end> ''" by code_simp
  have cl: "csv_loop example_world ''data'' False 4 1 (take 1 example_csv)
      (([(''data/img2.jpg'', [''earlier''])], 0), []) = (Done, ((?cm, 1), []))"
    by code_simp
  note C = within_file_accumulation [where w = example_world and ip = "''data''"
      and v = False and crow = "example_csv ! 1" and cname = "''img2.jpg#1''"
      and ccap = "''fine''" and m = ?cm and n = 1 and out = "[]" and tot = 4 and idx = 1
      and cpre = "take 1 example_csv" and cpost = "drop 2 example_csv"
      and ?m0.0 = "[(''data/img2.jpg'', [''earlier''])]" and ?n0.0 = 0 and ?out0.0 = "[]",
      THEN conjunct2, THEN conjunct2, THEN conjunct1, THEN mp, OF ch, unfolded cp co cc]
  have r3: "\<exists>m'. csv_row example_world ''data'' False (example_csv ! 1) (?cm, 1) = Inr (m', Suc 1) \<and>
      dict_get m' ''data/img2.jpg'' =
        Some ([''earlier'', '' <start> good <end> ''] @ ['' <start> fine <end> ''])"
    using C [THEN conjunct1] by (elim exE conjE) (intro exI conjI, assumption+)
  have r4: "\<exists>more. dict_get
             (fst (fst (snd (csv_loop example_world ''data'' False 4 1
                               (take 1 example_csv @ (example_csv ! 1) # drop 2 example_csv)
                               (([(''data/img2.jpg'', [''earlier''])], 0), [])))))
             ''data/img2.jpg'' =
           Some ([''earlier'', '' <start> good <end> ''] @ ['' <start> fine <end> ''] @ more)"
    using C [THEN conjunct2, THEN mp, OF cl] .
  have jh: "JDict [(''filename'', JStr ''a.jpg''), (''caption'', JStr ''w'')] =
             JDict [(''filename'', JStr ''a.jpg''), (''caption'', JStr ''w'')] \<and>
           map_of [(''filename'', JStr ''a.jpg''), (''caption'', JStr ''w'')] ''filename'' =
             Some (JStr ''a.jpg'') \<and>
           map_of [(''filename'', JStr ''a.jpg''), (''caption'', JStr ''w'')] ''caption'' =
             Some (JStr ''w'') \<and>
           (False \<longrightarrow> stat example_world (os_path_join ''data'' (strip ''a.jpg'')) = Present) \<and>
           formatted_captions example_render (JStr ''w'') \<noteq> []"
    by (simp add: formatted_captions_def)
  have jp: "os_path_join ''data'' (strip ''a.jpg'') = ''data/a.jpg''" by code_simp
  have jc: "formatted_captions example_render (JStr ''w'') = [''<start>w '']" by code_simp
  note J = within_file_accumulation [where w = example_world and ip = "''data''"
      and v = False and render = example_render and f = "''data/captions_b.json''"
      and m = "[(''data/a.jpg'', [''<start>x '', ''<start>y ''])]" and out = "[]",
      THEN conjunct2, THEN conjunct2, THEN conjunct2, THEN conjunct2, THEN mp, OF jh,
      unfolded jp jc]
  have r5: "\<exists>m'. json_item example_render example_world ''data/captions_b.json'' ''data'' False
            (JDict [(''filename'', JStr ''a.jpg''), (''caption'', JStr ''w'')])
            ([(''data/a.jpg'', [''<start>x '', ''<start>y ''])], []) = (Done, (m', [])) \<and>
          dict_get m' ''data/a.jpg'' = Some [''<start>w '']"
    using J by (elim exE conjE) (intro exI conjI, assumption+)
  from r1 r2 r3 r4 r5 show ?thesis by (intro conjI)
qed

subsection \<open>The fixed-name route\<close>






subsection \<open>The index suffix of an image name\<close>

lemma split_not_Nil: "split s sep \<noteq> []"
  by (induction s) (auto split: list.splits)

lemma hd_split: "hd (split s sep) = takeWhile (\<lambda>c. c \<noteq> sep) s"
  using split_not_Nil [of _ sep]
  by (induction s) (auto split: list.splits)

lemma takeWhile_before_first:
  "sep \<notin> set pre \<Longrightarrow> takeWhile (\<lambda>c. c \<noteq> sep) (pre @ sep # rest) = pre"
  by (induction pre) auto

lemma replace_no_occurrence:
  "old \<noteq> [] \<Longrightarrow> \<not> contains s old \<Longrightarrow> replace s old new = s"
proof (induction s)
  case Nil
  then show ?case by (simp add: replace.simps)
next
  case (Cons c cs)
  then have "\<not> prefix old (c # cs)" and "\<not> contains cs old" by simp_all
  with Cons show ?case by (subst replace.simps) simp
qed

lemma img_name_before_hash:
  assumes "raw = pre @ ''#'' @ rest" and "CHR ''#'' \<notin> set pre"
  shows "csv_img_name raw = pre" and "xlsx_img_name raw = replace pre ''*MG*'' ''IMG_''"
  using assms by (simp_all add: csv_img_name_def xlsx_img_name_def hd_split takeWhile_before_first)

text \<open>
  Claim C9, as stated, fails for the spreadsheet extractor: it cuts the name at the first
  \<open>#\<close> and then rewrites \<open>*MG*\<close>, so the name it builds the path from differs from the
  text before the first \<open>#\<close> whenever that text holds the placeholder.
\<close>

theorem hash_suffix_counterexample:
  "CHR ''#'' \<notin> set ''*MG*1.jpg'' \<and>
   xlsx_img_name (''*MG*1.jpg'' @ ''#'' @ ''0'') = ''IMG_1.jpg'' \<and>
   xlsx_img_path ''data'' (''*MG*1.jpg'' @ ''#'' @ ''0'') = ''data/IMG_1.jpg'' \<and>
   ''IMG_1.jpg'' \<noteq> ''*MG*1.jpg''"
  by code_simp

text \<open>
  Claim C9, amended.  For a raw image name with a \<open>#\<close>, let \<open>pre\<close> be its text before
  the first \<open>#\<close>.  The delimited-text extractor builds the image path from \<open>pre\<close>.  The
  spreadsheet extractor builds it from \<open>pre\<close> with every \<open>*MG*\<close> replaced by \<open>IMG_\<close>,
  which is \<open>pre\<close> itself when \<open>pre\<close> holds no \<open>*MG*\<close>.
\<close>

theorem hash_suffix_normalization:
  "raw = pre @ ''#'' @ rest \<and> CHR ''#'' \<notin> set pre \<longrightarrow>
     csv_img_name raw = pre \<and>
     csv_img_path ip raw = (if ip \<noteq> [] then os_path_join ip pre else pre) \<and>
     xlsx_img_name raw = replace pre ''*MG*'' ''IMG_'' \<and>
     xlsx_img_path ip raw =
       (if ip \<noteq> [] then os_path_join ip (replace pre ''*MG*'' ''IMG_'')
        else replace pre ''*MG*'' ''IMG_'') \<and>
     (\<not> contains pre ''*MG*'' \<longrightarrow> xlsx_img_name raw = pre)"
proof (intro impI)
  assume "raw = pre @ ''#'' @ rest \<and> CHR ''#'' \<notin> set pre"
  then have c: "csv_img_name raw = pre" and x: "xlsx_img_name raw = replace pre ''*MG*'' ''IMG_''"
    by (auto intro: img_name_before_hash)
  have "\<not> contains pre ''*MG*'' \<longrightarrow> replace pre ''*MG*'' ''IMG_'' = pre"
    by (simp add: replace_no_occurrence)
  with c x show "csv_img_name raw = pre \<and>
     csv_img_path ip raw = (if ip \<noteq> [] then os_path_join ip pre else pre) \<and>
     xlsx_img_name raw = replace pre ''*MG*'' ''IMG_'' \<and>
     xlsx_img_path ip raw =
       (if ip \<noteq> [] then os_path_join ip (replace pre ''*MG*'' ''IMG_'')
        else replace pre ''*MG*'' ''IMG_'') \<and>
     (\<not> contains pre ''*MG*'' \<longrightarrow> xlsx_img_name raw = pre)"
    by (simp add: csv_img_path_def xlsx_img_path_def)
qed

theorem hash_suffix_normalization_witness:
  "''photo1.jpg#1'' = ''photo1.jpg'' @ ''#'' @ ''1'' \<and> CHR ''#'' \<notin> set ''photo1.jpg'' \<and>
   csv_img_name ''photo1.jpg#1'' = ''photo1.jpg'' \<and>
   csv_img_path ''data'' ''photo1.jpg#1'' = ''data/photo1.jpg'' \<and>
   xlsx_img_name ''photo1.jpg#1'' = ''photo1.jpg'' \<and>
   xlsx_img_path ''data'' ''photo1.jpg#1'' = ''data/photo1.jpg''"
proof -
  have a: "''photo1.jpg#1'' = ''photo1.jpg'' @ ''#'' @ ''1'' \<and> CHR ''#'' \<notin> set ''photo1.jpg''"
    by simp
  have n: "\<not> contains ''photo1.jpg'' ''*MG*''" by code_simp
  have j: "os_path_join ''data'' ''photo1.jpg'' = ''data/photo1.jpg''" by code_simp
  note H = hash_suffix_normalization [where raw = "''photo1.jpg#1''" and pre = "''photo1.jpg''"
      and rest = "''1''" and ip = "''data''", THEN mp, OF a]
  have rp: "replace ''photo1.jpg'' ''*MG*'' ''IMG_'' = ''photo1.jpg''" by code_simp
  from H have c1: "csv_img_name ''photo1.jpg#1'' = ''photo1.jpg''" by (rule conjunct1)
  have c2: "csv_img_path ''data'' ''photo1.jpg#1'' = ''data/photo1.jpg''"
    using H [THEN conjunct2, THEN conjunct1] by (simp add: j)
  have x1: "xlsx_img_name ''photo1.jpg#1'' = ''photo1.jpg''"
    using H [THEN conjunct2, THEN conjunct2, THEN conjunct2, THEN conjunct2, THEN mp, OF n] .
  have x2: "xlsx_img_path ''data'' ''photo1.jpg#1'' = ''data/photo1.jpg''"
    using H [THEN conjunct2, THEN conjunct2, THEN conjunct2, THEN conjunct1]
    by (simp add: rp j)
  from a c1 c2 x1 x2 show ?thesis by (intro conjI) simp_all
qed

subsection \<open>The key of a structured record\<close>

lemma suffix_os_path_join: "suffix b (os_path_join a b)"
  by (simp add: os_path_join_def suffix_def)

lemma json_item_changes:
  assumes "json_item render w f ip v item (m, out) = (fl, (m', out'))" and "m' \<noteq> m"
  shows "\<exists>d name raw. item = JDict d \<and> map_of d ''filename'' = Some (JStr name) \<and>
           map_of d ''caption'' = Some raw \<and>
           m' = dict_set (os_path_join ip (strip name)) (formatted_captions render raw) m"
proof (cases item)
  case (JDict d)
  with assms show ?thesis
    by (auto simp: json_item_def malformed_def item_get_def Let_def
        split: if_splits sum.splits json.splits)
qed (use assms in \<open>auto simp: json_item_def malformed_def\<close>)

text \<open>
  Claim C10.  For a record the structured-record extractor keeps, the key it writes is
  \<open>os.path.join\<close> of the image root and the trimmed file name, which therefore ends the
  key with its \<open>#\<close> and its \<open>*MG*\<close> untouched; and whenever a record changes the
  dictionary, it is by an assignment to such a key.
\<close>

theorem json_key_is_plain_join:
  "(item = JDict d \<and> map_of d ''filename'' = Some (JStr name) \<and>
    map_of d ''caption'' = Some raw \<and>
    (v \<longrightarrow> stat w (os_path_join ip (strip name)) = Present) \<and>
    formatted_captions render raw \<noteq> [] \<longrightarrow>
      json_item render w f ip v item (m, out) =
        (Done, (dict_set (os_path_join ip (strip name)) (formatted_captions render raw) m, out)) \<and>
      keys (dict_set (os_path_join ip (strip name)) (formatted_captions render raw) m) =
        insert (os_path_join ip (strip name)) (keys m) \<and>
      suffix (strip name) (os_path_join ip (strip name))) \<and>
   (json_item render w f ip v item (m, out) = (fl, (m', out')) \<and> m' \<noteq> m \<longrightarrow>
      (\<exists>d name raw. item = JDict d \<and> map_of d ''filename'' = Some (JStr name) \<and>
         map_of d ''caption'' = Some raw \<and>
         m' = dict_set (os_path_join ip (strip name)) (formatted_captions render raw) m))"
proof (intro conjI impI)
  assume "item = JDict d \<and> map_of d ''filename'' = Some (JStr name) \<and>
    map_of d ''caption'' = Some raw \<and>
    (v \<longrightarrow> stat w (os_path_join ip (strip name)) = Present) \<and>
    formatted_captions render raw \<noteq> []"
  then show "json_item render w f ip v item (m, out) =
        (Done, (dict_set (os_path_join ip (strip name)) (formatted_captions render raw) m, out))"
    by (elim conjE) (rule json_item_kept, assumption+)
next
  show "keys (dict_set (os_path_join ip (strip name)) (formatted_captions render raw) m) =
        insert (os_path_join ip (strip name)) (keys m)"
    by (rule keys_dict_set)
next
  show "suffix (strip name) (os_path_join ip (strip name))"
    by (rule suffix_os_path_join)
next
  assume "json_item render w f ip v item (m, out) = (fl, (m', out')) \<and> m' \<noteq> m"
  then show "\<exists>d name raw. item = JDict d \<and> map_of d ''filename'' = Some (JStr name) \<and>
         map_of d ''caption'' = Some raw \<and>
         m' = dict_set (os_path_join ip (strip name)) (formatted_captions render raw) m"
    by (elim conjE) (rule json_item_changes)
qed

theorem json_key_is_plain_join_witness:
  "json_item example_render example_world ''data/captions_a.json'' ''data/images'' False
     (JDict [(''filename'', JStr '' *MG*1.jpg#2 ''), (''caption'', JStr '' z '')]) ([], []) =
     (Done, ([(''data/images/*MG*1.jpg#2'', [''<start>z ''])], [])) \<and>
   xlsx_img_name (strip '' *MG*1.jpg#2 '') = ''IMG_1.jpg''"
proof -
  have h: "JDict [(''filename'', JStr '' *MG*1.jpg#2 ''), (''caption'', JStr '' z '')] =
             JDict [(''filename'', JStr '' *MG*1.jpg#2 ''), (''caption'', JStr '' z '')] \<and>
           map_of [(''filename'', JStr '' *MG*1.jpg#2 ''), (''caption'', JStr '' z '')] ''filename'' =
             Some (JStr '' *MG*1.jpg#2 '') \<and>
           map_of [(''filename'', JStr '' *MG*1.jpg#2 ''), (''caption'', JStr '' z '')] ''caption'' =
             Some (JStr '' z '') \<and>
           (False \<longrightarrow> stat example_world (os_path_join ''data/images'' (strip '' *MG*1.jpg#2 '')) =
              Present) \<and>
           formatted_captions example_render (JStr '' z '') \<noteq> []"
    by (simp add: formatted_captions_def)
  have k: "dict_set (os_path_join ''data/images'' (strip '' *MG*1.jpg#2 ''))
             (formatted_captions example_render (JStr '' z '')) [] =
           [(''data/images/*MG*1.jpg#2'', [''<start>z ''])]"
    by code_simp
  have x: "xlsx_img_name (strip '' *MG*1.jpg#2 '') = ''IMG_1.jpg''" by code_simp
  from json_key_is_plain_join [where w = example_world and render = example_render
      and f = "''data/captions_a.json''" and ip = "''data/images''" and v = False
      and m = "[]" and out = "[]", THEN conjunct1, THEN mp, OF h, THEN conjunct1]
  have "json_item example_render example_world ''data/captions_a.json'' ''data/images'' False
     (JDict [(''filename'', JStr '' *MG*1.jpg#2 ''), (''caption'', JStr '' z '')]) ([], []) =
     (Done, ([(''data/images/*MG*1.jpg#2'', [''<start>z ''])], []))"
    by (simp only: k)
  with x show ?thesis by (intro conjI)
qed

end
